theory Spec2Isabelle
  imports Main
begin

chapter \<open>GraphQL code generator: selection sets to type expressions, federation keys\<close>

text \<open>
  A shallow embedding of two source files of the generator:
  \<^item> \<^verbatim>\<open>packages/utils/plugins-helpers/src/federation.ts\<close> (class \<^verbatim>\<open>ApolloFederation\<close>),
  \<^item> \<^verbatim>\<open>packages/plugins/other/visitor-plugin-common/src/selection-set-to-object.ts\<close>
    (class \<^verbatim>\<open>SelectionSetToObject\<close>).

  JavaScript exceptions are values of type \<open>error\<close>, and a function that can throw returns
  \<open>error + 'a\<close> with \<open>Inl\<close> for the exception. Objects that the source mutates (the type
  map, the classification buffers) are passed in and returned. A JavaScript string is a
  \<open>string\<close>; a \<open>char\<close> stands for one code unit below 256. A plain object or a \<^verbatim>\<open>Map\<close>
  used as a dictionary is an association list in insertion order; the names that serve as
  keys are names of a schema, which are neither integer indices nor members of
  \<^verbatim>\<open>Object.prototype\<close>.
\<close>

section \<open>Errors and small helpers of the host language\<close>

text \<open>
  \<open>Error m\<close> and \<open>TypeError m\<close> are the exceptions the source constructs itself, with their
  messages. \<open>RuntimeTypeError\<close> is the TypeError the JavaScript engine raises when a property
  of \<^verbatim>\<open>undefined\<close> is read or a value that is not a function is called. \<open>OutOfFuel\<close> is no
  exception of the source: it is the result of a recursion that the embedding cut off at
  its bound on the nesting depth.
\<close>

datatype error = Error string | TypeError string | RuntimeTypeError | OutOfFuel

text \<open>\<^verbatim>\<open>xs.map(f)\<close> where \<open>f\<close> may throw: left to right, the first exception wins.\<close>

fun mapE :: "('a \<Rightarrow> error + 'b) \<Rightarrow> 'a list \<Rightarrow> error + 'b list" where
  "mapE f [] = Inr []"
| "mapE f (x # xs) =
     (case f x of
        Inl e \<Rightarrow> Inl e
      | Inr y \<Rightarrow> (case mapE f xs of Inl e \<Rightarrow> Inl e | Inr ys \<Rightarrow> Inr (y # ys)))"

text \<open>\<^verbatim>\<open>xs.join(sep)\<close> on an array of strings.\<close>

fun js_join :: "string \<Rightarrow> string list \<Rightarrow> string" where
  "js_join sep [] = []"
| "js_join sep [x] = x"
| "js_join sep (x # y # ys) = x @ sep @ js_join sep (y # ys)"

text \<open>
  \<^verbatim>\<open>items.indexOf(item)\<close>: the first index holding the item, \<open>None\<close> for JavaScript's \<open>-1\<close>.
\<close>

fun indexOf :: "'a list \<Rightarrow> 'a \<Rightarrow> nat option" where
  "indexOf [] v = None"
| "indexOf (x # xs) v = (if x = v then Some 0 else map_option Suc (indexOf xs v))"

text \<open>
  The class \<open>\s\<close> of a JavaScript regular expression, on code units below 256: tab, line
  feed, vertical tab, form feed, carriage return, space and no-break space.
\<close>

definition isSpace :: "char \<Rightarrow> bool" where
  "isSpace c = (c \<in> set [CHR 0x09, CHR 0x0A, CHR 0x0B, CHR 0x0C, CHR 0x0D, CHR 0x20, CHR 0xA0])"

text \<open>
  \<^verbatim>\<open>value.split(/\s+/g)\<close>: the pieces between the maximal runs of white space. A run at
  the start or at the end of the string leaves an empty piece there, and the empty string
  splits into one empty piece.
\<close>

function split_ws :: "string \<Rightarrow> string list" where
  "split_ws [] = [[]]"
| "split_ws (c # cs) =
     (if isSpace c then [] # split_ws (dropWhile isSpace cs)
      else (case split_ws cs of [] \<Rightarrow> [[c]] | p # ps \<Rightarrow> (c # p) # ps))"
  by pat_completeness auto
termination
  by (relation "measure length") (auto simp: le_imp_less_Suc length_dropWhile_le)

section \<open>The schema\<close>

text \<open>
  The schema objects of the \<^verbatim>\<open>graphql\<close> library, as far as the two files read them. A field's
  type is a reference by name under list and non-null wrappers. A definition node of the
  schema's syntax tree carries a name and its optional \<^verbatim>\<open>directives\<close> array; the
  \<^verbatim>\<open>astNode\<close> of a type or of a field is optional as well. A directive argument is its name
  with its string value (the source casts the value to \<^verbatim>\<open>StringValueNode\<close>).
\<close>

datatype graphql_type = NamedType string | ListType graphql_type | NonNullType graphql_type

record directive_node =
  directive_name :: string
  directive_arguments :: "(string \<times> string) list"

record definition_node =
  node_name :: string
  node_directives :: "directive_node list option"

record graphql_field =
  field_name :: string
  field_type :: graphql_type
  field_astNode :: "definition_node option"

text \<open>
  \<^verbatim>\<open>isTypeOf\<close> of an object type is the optional predicate of the library by which a
  resolver recognises the runtime values of the type; a schema built from SDL text leaves
  it undefined. The embedding hands it the name of the value it is applied to.
\<close>

datatype named_type =
    GraphQLObjectType string "string list" "graphql_field list" "definition_node option"
      "(string \<Rightarrow> bool) option"
  | GraphQLInterfaceType string "graphql_field list"
  | GraphQLUnionType string "string list"
  | GraphQLScalarType string
  | GraphQLEnumType string

fun type_name :: "named_type \<Rightarrow> string" where
  "type_name (GraphQLObjectType n is fs a p) = n"
| "type_name (GraphQLInterfaceType n fs) = n"
| "type_name (GraphQLUnionType n ms) = n"
| "type_name (GraphQLScalarType n) = n"
| "type_name (GraphQLEnumType n) = n"

fun isObjectType :: "named_type \<Rightarrow> bool" where
  "isObjectType (GraphQLObjectType n is fs a p) = True"
| "isObjectType _ = False"

fun isInterfaceType :: "named_type \<Rightarrow> bool" where
  "isInterfaceType (GraphQLInterfaceType n fs) = True"
| "isInterfaceType _ = False"

fun isUnionType :: "named_type \<Rightarrow> bool" where
  "isUnionType (GraphQLUnionType n ms) = True"
| "isUnionType _ = False"

fun isNonNullType :: "graphql_type \<Rightarrow> bool" where
  "isNonNullType (NonNullType t) = True"
| "isNonNullType _ = False"

text \<open>\<^verbatim>\<open>type.getFields()\<close>; only object and interface types have fields.\<close>

fun getFields :: "named_type \<Rightarrow> graphql_field list" where
  "getFields (GraphQLObjectType n is fs a p) = fs"
| "getFields (GraphQLInterfaceType n fs) = fs"
| "getFields _ = []"

text \<open>\<^verbatim>\<open>type.getFields()[name]\<close>: \<open>None\<close> is JavaScript's \<^verbatim>\<open>undefined\<close>.\<close>

definition getField :: "named_type \<Rightarrow> string \<Rightarrow> graphql_field option" where
  "getField t n = find (\<lambda>f. field_name f = n) (getFields t)"

fun astNode :: "named_type \<Rightarrow> definition_node option" where
  "astNode (GraphQLObjectType n is fs a p) = a"
| "astNode _ = None"

fun getInterfaces :: "named_type \<Rightarrow> string list" where
  "getInterfaces (GraphQLObjectType n is fs a p) = is"
| "getInterfaces _ = []"

fun isTypeOf :: "named_type \<Rightarrow> (string \<Rightarrow> bool) option" where
  "isTypeOf (GraphQLObjectType n is fs a p) = p"
| "isTypeOf _ = None"

text \<open>
  A schema is its type map in the order of \<^verbatim>\<open>Object.keys(schema.getTypeMap())\<close>;
  \<^verbatim>\<open>schema.getType(name)\<close> looks a name up.
\<close>

type_synonym schema = "named_type list"

definition getType :: "schema \<Rightarrow> string \<Rightarrow> named_type option" where
  "getType s n = find (\<lambda>t. type_name t = n) s"

text \<open>
  Modelled from the spec: \<^verbatim>\<open>getBaseType\<close> of \<^verbatim>\<open>plugins-helpers/src/utils.ts\<close>, which is not
  among the sources. It unwraps the list and non-null wrappers of a type and yields the
  named type underneath (here its name).
\<close>

fun getBaseType :: "graphql_type \<Rightarrow> string" where
  "getBaseType (NamedType n) = n"
| "getBaseType (ListType t) = getBaseType t"
| "getBaseType (NonNullType t) = getBaseType t"

section \<open>Federation: \<^verbatim>\<open>federation.ts\<close>\<close>

subsection \<open>Module-level helpers\<close>

text \<open>\<^verbatim>\<open>deduplicate\<close>: keep an item where \<^verbatim>\<open>indexOf\<close> finds it first.\<close>

definition deduplicate :: "'a list \<Rightarrow> 'a list" where
  "deduplicate items =
     map fst (filter (\<lambda>(item, i). indexOf items item = Some i) (zip items [0..<length items]))"

text \<open>
  \<^verbatim>\<open>getDirectivesByName\<close>, applied to the syntax node it reads: the \<^verbatim>\<open>astNode\<close> of an object
  type, a field definition node itself. Without a node or without a \<^verbatim>\<open>directives\<close> array the
  result is empty.
\<close>

definition getDirectivesByName :: "string \<Rightarrow> definition_node option \<Rightarrow> directive_node list" where
  "getDirectivesByName name node =
     (case node of
        None \<Rightarrow> []
      | Some ast \<Rightarrow>
          (case node_directives ast of
             None \<Rightarrow> []
           | Some ds \<Rightarrow> filter (\<lambda>d. directive_name d = name) ds))"

text \<open>
  \<^verbatim>\<open>isFederationObjectType\<close> on a \<^verbatim>\<open>GraphQLObjectType\<close>. It reads
  \<^verbatim>\<open>node.astNode.directives\<close> and calls \<^verbatim>\<open>some\<close> on it with no check: a type without a syntax
  node, or a node without directives, raises.
\<close>

definition isFederationObjectType :: "named_type \<Rightarrow> error + bool" where
  "isFederationObjectType node =
     (case astNode node of
        None \<Rightarrow> Inl RuntimeTypeError
      | Some ast \<Rightarrow>
          (case node_directives ast of
             None \<Rightarrow> Inl RuntimeTypeError
           | Some directives \<Rightarrow>
               let name = type_name node;
                   isNotRoot = (name \<notin> set [''Query'', ''Mutation'', ''Subscription'']);
                   isNotIntrospection = (take 2 name \<noteq> ''__'');
                   hasKeyDirective = (\<exists>d \<in> set directives. directive_name d = ''key'')
               in Inr (isNotRoot \<and> isNotIntrospection \<and> hasKeyDirective)))"

subsection \<open>The class \<^verbatim>\<open>ApolloFederation\<close>\<close>

record field_set_item =
  item_name :: string
  item_required :: bool

record apollo_federation =
  fed_enabled :: bool
  fed_schema :: schema
  fed_providesMap :: "(string \<times> string list) list"

text \<open>
  \<^verbatim>\<open>extractFieldSet\<close>: the \<^verbatim>\<open>fields\<close> argument of the directive; a brace anywhere in it is
  refused, otherwise it is split on white space and deduplicated. A directive without a
  \<^verbatim>\<open>fields\<close> argument makes the property access on \<^verbatim>\<open>undefined\<close> fail.
\<close>

definition extractFieldSet :: "directive_node \<Rightarrow> error + string list" where
  "extractFieldSet directive =
     (case find (\<lambda>arg. fst arg = ''fields'') (directive_arguments directive) of
        None \<Rightarrow> Inl RuntimeTypeError
      | Some arg \<Rightarrow>
          let v = snd arg in
          if (\<exists>c \<in> set v. c = CHR ''{'' \<or> c = CHR ''}'')
          then Inl (Error ''Nested fields in _FieldSet is not supported'')
          else Inr (deduplicate (split_ws v)))"

text \<open>\<^verbatim>\<open>translateFieldSet\<close>: the projection type; the \<^verbatim>\<open>required\<close> flags are not read.\<close>

definition translateFieldSet :: "field_set_item list \<Rightarrow> string \<Rightarrow> string" where
  "translateFieldSet flds parentTypeRef =
     (let keys = js_join '' | '' (map (\<lambda>field. [CHR 0x27] @ item_name field @ [CHR 0x27]) flds)
      in ''Pick<'' @ parentTypeRef @ '', '' @ keys @ ''>'')"

text \<open>
  \<^verbatim>\<open>createMapOfProvides\<close>: for every object type of the type map and every field of it, the
  names of the field's \<^verbatim>\<open>provides\<close> directives are pushed onto the entry of the field's base
  type. \<open>pushProvides\<close> is the body's last two statements (create the entry, push).
\<close>

definition pushProvides ::
  "(string \<times> string list) list \<Rightarrow> string \<Rightarrow> string list \<Rightarrow> (string \<times> string list) list" where
  "pushProvides providesMap k provides =
     (case map_of providesMap k of
        None \<Rightarrow> providesMap @ [(k, provides)]
      | Some old \<Rightarrow> map (\<lambda>(k', v). if k' = k then (k', v @ provides) else (k', v)) providesMap)"

fun providesOfFields ::
  "graphql_field list \<Rightarrow> (string \<times> string list) list \<Rightarrow> error + (string \<times> string list) list" where
  "providesOfFields [] providesMap = Inr providesMap"
| "providesOfFields (field # rest) providesMap =
     (case mapE extractFieldSet (getDirectivesByName ''provides'' (field_astNode field)) of
        Inl e \<Rightarrow> Inl e
      | Inr sets \<Rightarrow>
          providesOfFields rest
            (pushProvides providesMap (getBaseType (field_type field)) (concat sets)))"

fun providesOfTypes ::
  "schema \<Rightarrow> string list \<Rightarrow> (string \<times> string list) list \<Rightarrow> error + (string \<times> string list) list" where
  "providesOfTypes s [] providesMap = Inr providesMap"
| "providesOfTypes s (typename # rest) providesMap =
     (case getType s typename of
        None \<Rightarrow> providesOfTypes s rest providesMap
      | Some objectType \<Rightarrow>
          if isObjectType objectType then
            (case providesOfFields (getFields objectType) providesMap of
               Inl e \<Rightarrow> Inl e
             | Inr providesMap' \<Rightarrow> providesOfTypes s rest providesMap')
          else providesOfTypes s rest providesMap)"

definition createMapOfProvides :: "schema \<Rightarrow> error + (string \<times> string list) list" where
  "createMapOfProvides s = providesOfTypes s (deduplicate (map type_name s)) []"

text \<open>The constructor: it builds the map of provides whether federation is enabled or not.\<close>

definition ApolloFederation :: "bool \<Rightarrow> schema \<Rightarrow> error + apollo_federation" where
  "ApolloFederation enabled s =
     (case createMapOfProvides s of
        Inl e \<Rightarrow> Inl e
      | Inr providesMap \<Rightarrow>
          Inr \<lparr>fed_enabled = enabled, fed_schema = s, fed_providesMap = providesMap\<rparr>)"

definition filterTypeNames :: "apollo_federation \<Rightarrow> string list \<Rightarrow> string list" where
  "filterTypeNames fed typeNames =
     (if fed_enabled fed then filter (\<lambda>t. t \<noteq> ''_FieldSet'') typeNames else typeNames)"

definition filterFieldNames :: "apollo_federation \<Rightarrow> string list \<Rightarrow> string list" where
  "filterFieldNames fed fieldNames =
     (if fed_enabled fed then filter (\<lambda>t. t \<noteq> ''__resolveReference'') fieldNames else fieldNames)"

definition skipDirective :: "apollo_federation \<Rightarrow> string \<Rightarrow> bool" where
  "skipDirective fed name =
     (fed_enabled fed \<and> name \<in> set [''external'', ''requires'', ''provides'', ''key''])"

definition skipScalar :: "apollo_federation \<Rightarrow> string \<Rightarrow> bool" where
  "skipScalar fed name = (fed_enabled fed \<and> name = ''_FieldSet'')"

definition isExternal :: "definition_node \<Rightarrow> bool" where
  "isExternal node = (length (getDirectivesByName ''external'' (Some node)) > 0)"

definition hasProvides :: "apollo_federation \<Rightarrow> named_type \<Rightarrow> definition_node \<Rightarrow> bool" where
  "hasProvides fed objectType node =
     (case map_of (fed_providesMap fed) (type_name objectType) of
        None \<Rightarrow> False
      | Some flds \<Rightarrow> if flds \<noteq> [] then node_name node \<in> set flds else False)"

definition isExternalAndNotProvided ::
  "apollo_federation \<Rightarrow> definition_node \<Rightarrow> named_type \<Rightarrow> bool" where
  "isExternalAndNotProvided fed fieldNode objectType =
     (isExternal fieldNode \<and> \<not> hasProvides fed objectType fieldNode)"

definition skipField :: "apollo_federation \<Rightarrow> definition_node \<Rightarrow> named_type \<Rightarrow> error + bool" where
  "skipField fed fieldNode parentType =
     (if \<not> fed_enabled fed \<or> \<not> isObjectType parentType then Inr False
      else
        (case isFederationObjectType parentType of
           Inl e \<Rightarrow> Inl e
         | Inr isFed \<Rightarrow>
             if \<not> isFed then Inr False
             else Inr (isExternalAndNotProvided fed fieldNode parentType)))"

text \<open>
  \<^verbatim>\<open>translateParentType\<close>. \<open>requiresItems\<close> is the local \<^verbatim>\<open>requires\<close>: the names of all
  \<^verbatim>\<open>requires\<close> directives of the field node, each with the non-null flag of the parent's field
  of that name (a name that is not a field of the parent raises). \<open>primaryKeyItems\<close> is the
  local \<^verbatim>\<open>fields\<close> of one \<^verbatim>\<open>key\<close> directive. (\<open>flds\<close> stands for the source's \<^verbatim>\<open>fields\<close>, a
  name the record package reserves.)
\<close>

definition requiresItems :: "definition_node \<Rightarrow> named_type \<Rightarrow> error + field_set_item list" where
  "requiresItems fieldNode parentType =
     (case mapE extractFieldSet (getDirectivesByName ''requires'' (Some fieldNode)) of
        Inl e \<Rightarrow> Inl e
      | Inr sets \<Rightarrow>
          mapE (\<lambda>name.
                 case getField parentType name of
                   None \<Rightarrow> Inl RuntimeTypeError
                 | Some f \<Rightarrow>
                     Inr \<lparr>item_name = name, item_required = isNonNullType (field_type f)\<rparr>)
               (concat sets))"

definition primaryKeyItems :: "directive_node \<Rightarrow> error + field_set_item list" where
  "primaryKeyItems def =
     (case extractFieldSet def of
        Inl e \<Rightarrow> Inl e
      | Inr names \<Rightarrow> Inr (map (\<lambda>name. \<lparr>item_name = name, item_required = True\<rparr>) names))"

definition translateParentType ::
  "apollo_federation \<Rightarrow> definition_node \<Rightarrow> named_type \<Rightarrow> string \<Rightarrow> error + string" where
  "translateParentType fed fieldNode parentType parentTypeSignature =
     (if fed_enabled fed \<and> isObjectType parentType then
        (case isFederationObjectType parentType of
           Inl e \<Rightarrow> Inl e
         | Inr isFed \<Rightarrow>
             if isFed \<and> node_name fieldNode = ''__resolveReference'' then
               (let keys = getDirectivesByName ''key'' (astNode parentType) in
                if keys \<noteq> [] then
                  (case requiresItems fieldNode parentType of
                     Inl e \<Rightarrow> Inl e
                   | Inr requires \<Rightarrow>
                       (let requiredFields = translateFieldSet requires parentTypeSignature in
                        case mapE (\<lambda>def.
                                    case primaryKeyItems def of
                                      Inl e \<Rightarrow> Inl e
                                    | Inr flds \<Rightarrow>
                                        Inr (translateFieldSet flds parentTypeSignature))
                                  keys of
                          Inl e \<Rightarrow> Inl e
                        | Inr primaryKeys \<Rightarrow>
                            (let (opn, cls) =
                                   (if length primaryKeys > 1 then (''('', '')'') else ([], []));
                                 outputs =
                                   [concat [opn, js_join '' | '' primaryKeys, cls]] @
                                   (if requires \<noteq> [] then [''& '' @ requiredFields] else [])
                             in Inr (js_join '' '' outputs))))
                else Inr parentTypeSignature)
             else Inr parentTypeSignature)
      else Inr parentTypeSignature)"

text \<open>
  A recursive reading of \<open>deduplicate\<close>, used in proofs: \<open>firsts seen ys\<close> keeps an element of
  \<open>ys\<close> unless it is in \<open>seen\<close> or occurred earlier in \<open>ys\<close>.
\<close>

fun firsts :: "'a list \<Rightarrow> 'a list \<Rightarrow> 'a list" where
  "firsts seen [] = []"
| "firsts seen (y # ys) = (if y \<in> set seen then firsts (seen @ [y]) ys else y # firsts (seen @ [y]) ys)"

subsection \<open>Notions used to state the properties of the translator\<close>

text \<open>
  The annotations of a syntax node that carry a given name, in the order of the node, and
  the string of the \<^verbatim>\<open>fields\<close> argument of an annotation. A field set is written as names
  separated by white space: \<open>fieldSetNames\<close> are its names, each once, where it occurs first;
  \<open>noBrace\<close> holds of a field set without nested selections. \<open>pickOf\<close> is the projection
  \<^verbatim>\<open>Pick<ParentType, 'a' | 'b'>\<close> of a parent type reference onto a list of names.
\<close>

definition annotationsNamed :: "definition_node \<Rightarrow> string \<Rightarrow> directive_node list" where
  "annotationsNamed node name =
     filter (\<lambda>d. directive_name d = name)
       (case node_directives node of None \<Rightarrow> [] | Some ds \<Rightarrow> ds)"

definition fieldsArgument :: "directive_node \<Rightarrow> string option" where
  "fieldsArgument d = map_of (directive_arguments d) ''fields''"

definition noBrace :: "string \<Rightarrow> bool" where
  "noBrace v = (CHR ''{'' \<notin> set v \<and> CHR ''}'' \<notin> set v)"

definition fieldSetNames :: "string \<Rightarrow> string list" where
  "fieldSetNames v = firsts [] (split_ws v)"

definition pickOf :: "string \<Rightarrow> string list \<Rightarrow> string" where
  "pickOf parentTypeRef names =
     ''Pick<'' @ parentTypeRef @ '', ''
       @ js_join '' | '' (map (\<lambda>n. [CHR 0x27] @ n @ [CHR 0x27]) names) @ ''>''"

subsection \<open>An example schema with federation directives\<close>

text \<open>
  \<^verbatim>\<open>type User @key(fields: "id") @key(fields: "email") { id: ID!  email: String!  name: String }\<close>
  and \<^verbatim>\<open>type Product @key(fields: "id") { id: ID! }\<close>, with two nodes for the synthesized field
  \<^verbatim>\<open>__resolveReference\<close>: one bare, one carrying \<^verbatim>\<open>@requires(fields: "name email")\<close>.
\<close>

definition keyDirective :: "string \<Rightarrow> directive_node" where
  "keyDirective fs = \<lparr>directive_name = ''key'', directive_arguments = [(''fields'', fs)]\<rparr>"

definition exUser :: named_type where
  "exUser = GraphQLObjectType ''User'' []
     [\<lparr>field_name = ''id'', field_type = NonNullType (NamedType ''ID''), field_astNode = None\<rparr>,
      \<lparr>field_name = ''email'', field_type = NonNullType (NamedType ''String''), field_astNode = None\<rparr>,
      \<lparr>field_name = ''name'', field_type = NamedType ''String'', field_astNode = None\<rparr>]
     (Some \<lparr>node_name = ''User'', node_directives = Some [keyDirective ''id'', keyDirective ''email'']\<rparr>)
     None"

definition exProduct :: named_type where
  "exProduct = GraphQLObjectType ''Product'' []
     [\<lparr>field_name = ''id'', field_type = NonNullType (NamedType ''ID''), field_astNode = None\<rparr>]
     (Some \<lparr>node_name = ''Product'', node_directives = Some [keyDirective ''id'']\<rparr>)
     None"

definition exResolveReference :: definition_node where
  "exResolveReference = \<lparr>node_name = ''__resolveReference'', node_directives = None\<rparr>"

definition exResolveReferenceRequires :: definition_node where
  "exResolveReferenceRequires = \<lparr>node_name = ''__resolveReference'',
     node_directives = Some [\<lparr>directive_name = ''requires'', directive_arguments = [(''fields'', ''name email'')]\<rparr>]\<rparr>"

text \<open>
  \<^verbatim>\<open>type Review @note(fields: "body") @key(fields: "id") { id: ID!  body: String  author: String! }\<close>
  carries an annotation that is no key, and the node of its \<^verbatim>\<open>__resolveReference\<close> carries
  \<^verbatim>\<open>@note(fields: "id") @requires(fields: "body author  body")\<close>.
\<close>

definition exReview :: named_type where
  "exReview = GraphQLObjectType ''Review'' []
     [\<lparr>field_name = ''id'', field_type = NonNullType (NamedType ''ID''), field_astNode = None\<rparr>,
      \<lparr>field_name = ''body'', field_type = NamedType ''String'', field_astNode = None\<rparr>,
      \<lparr>field_name = ''author'', field_type = NonNullType (NamedType ''String''), field_astNode = None\<rparr>]
     (Some \<lparr>node_name = ''Review'',
            node_directives = Some [\<lparr>directive_name = ''note'', directive_arguments = [(''fields'', ''body'')]\<rparr>,
                                    keyDirective ''id'']\<rparr>)
     None"

definition exResolveReferenceNoted :: definition_node where
  "exResolveReferenceNoted = \<lparr>node_name = ''__resolveReference'',
     node_directives = Some [\<lparr>directive_name = ''note'', directive_arguments = [(''fields'', ''id'')]\<rparr>,
                             \<lparr>directive_name = ''requires'', directive_arguments = [(''fields'', ''body author  body'')]\<rparr>]\<rparr>"

definition exFederation :: apollo_federation where
  "exFederation = \<lparr>fed_enabled = True, fed_schema = [exUser, exProduct], fed_providesMap = []\<rparr>"

section \<open>Selection sets: \<^verbatim>\<open>selection-set-to-object.ts\<close>\<close>

subsection \<open>Documents\<close>

text \<open>
  A selection of a parsed document: a field with its optional alias, its name and its
  optional selection set; an inline fragment with its optional type condition and its
  selections; a fragment spread with the name of the fragment.
\<close>

datatype selection_node =
    FieldNode "string option" string "selection_node list option"
  | InlineFragmentNode "string option" "selection_node list"
  | FragmentSpreadNode string

fun isField :: "selection_node \<Rightarrow> bool" where
  "isField (FieldNode a n s) = True"
| "isField _ = False"

fun isInlineFragment :: "selection_node \<Rightarrow> bool" where
  "isInlineFragment (InlineFragmentNode c s) = True"
| "isInlineFragment _ = False"

fun isFragmentSpread :: "selection_node \<Rightarrow> bool" where
  "isFragmentSpread (FragmentSpreadNode n) = True"
| "isFragmentSpread _ = False"

text \<open>
  Modelled from the spec: \<^verbatim>\<open>separateSelectionSet\<close> of \<^verbatim>\<open>visitor-plugin-common/src/utils.ts\<close>,
  which is not among the sources. It splits a raw selection into its plain fields, its inline
  fragments and its fragment spreads, each in document order.
\<close>

definition separateSelectionSet ::
  "selection_node list \<Rightarrow> selection_node list \<times> selection_node list \<times> selection_node list" where
  "separateSelectionSet selections =
     (filter isField selections, filter isInlineFragment selections,
      filter isFragmentSpread selections)"

text \<open>
  Modelled from the spec: \<^verbatim>\<open>getFieldNodeNameValue\<close> of the same file, the response key of a
  field: the alias when present, otherwise the field name.
\<close>

fun getFieldNodeNameValue :: "selection_node \<Rightarrow> string" where
  "getFieldNodeNameValue (FieldNode a n s) = (case a of Some al \<Rightarrow> al | None \<Rightarrow> n)"
| "getFieldNodeNameValue _ = []"

text \<open>
  Modelled from the spec: \<^verbatim>\<open>mergeSelectionSets\<close> of the same file. The second selection set is
  united into the first: a field whose response key is already there is merged into that
  field, their child selection sets united recursively; any other selection is added at the
  end unless it is there already. \<open>mergeSelection\<close> adds one selection.
\<close>

fun mergeSelection :: "selection_node list \<Rightarrow> selection_node \<Rightarrow> selection_node list" where
  "mergeSelection [] x = [x]"
| "mergeSelection (y # ys) x =
     (case (y, x) of
        (FieldNode a1 n1 s1, FieldNode a2 n2 s2) \<Rightarrow>
          if getFieldNodeNameValue y = getFieldNodeNameValue x then
            FieldNode a1 n1
              (case (s1, s2) of
                 (Some c1, Some c2) \<Rightarrow> Some (foldl mergeSelection c1 c2)
               | (Some c1, None) \<Rightarrow> Some c1
               | (None, c) \<Rightarrow> c) # ys
          else y # mergeSelection ys x
      | _ \<Rightarrow> if y = x then y # ys else y # mergeSelection ys x)"

definition mergeSelectionSets :: "selection_node list \<Rightarrow> selection_node list \<Rightarrow> selection_node list" where
  "mergeSelectionSets selectionSet1 selectionSet2 = foldl mergeSelection selectionSet1 selectionSet2"

text \<open>
  Modelled from the spec: \<^verbatim>\<open>getPossibleTypes\<close> of the same file, the possible-types resolver:
  an object type yields itself, an interface every object type of the schema that declares
  it, a union its member types, in schema order; any other type has no possible types.
  \<open>getTypes\<close> is \<^verbatim>\<open>union.getTypes()\<close> of the library.
\<close>

fun getTypes :: "schema \<Rightarrow> named_type \<Rightarrow> named_type list" where
  "getTypes s (GraphQLUnionType n ms) = List.map_filter (getType s) ms"
| "getTypes s _ = []"

fun getPossibleTypes :: "schema \<Rightarrow> named_type \<Rightarrow> named_type list" where
  "getPossibleTypes s (GraphQLObjectType n is fs a p) = [GraphQLObjectType n is fs a p]"
| "getPossibleTypes s (GraphQLInterfaceType n fs) =
     filter (\<lambda>t. isObjectType t \<and> n \<in> set (getInterfaces t)) s"
| "getPossibleTypes s (GraphQLUnionType n ms) = getTypes s (GraphQLUnionType n ms)"
| "getPossibleTypes s _ = []"

subsection \<open>The instance: processor, naming, fragments, configuration\<close>

text \<open>
  The processor is the pluggable strategy: the class reads it only through the four
  transformations and the two functions of its configuration. An entry of a
  \<^verbatim>\<open>ProcessResult\<close> is a name with a type, or a string.
\<close>

datatype process_item = NameAndType string string | Text string

record link_field =
  link_alias :: "string option"
  link_name :: string
  link_type :: string
  link_selectionSet :: string

record processor =
  transformTypenameField :: "string \<Rightarrow> string \<Rightarrow> process_item list"
  transformPrimitiveFields :: "named_type \<Rightarrow> string list \<Rightarrow> process_item list"
  transformAliasesPrimitiveFields :: "named_type \<Rightarrow> (string \<times> string) list \<Rightarrow> process_item list"
  transformLinkFields :: "link_field list \<Rightarrow> process_item list"
  formatNamedField :: "string \<Rightarrow> string"
  wrapTypeWithModifiers :: "string \<Rightarrow> graphql_type \<Rightarrow> string"

record loaded_fragment =
  fragment_name :: string
  fragment_onType :: string

record documents_config =
  nonOptionalTypename :: bool
  addTypename :: bool
  dedupeOperationSuffix :: bool

text \<open>
  The fields of a \<^verbatim>\<open>SelectionSetToObject\<close> that \<^verbatim>\<open>createNext\<close> hands on unchanged.
  \<^verbatim>\<open>convertName name useTypesPrefix suffix\<close> is the naming function with the two options the
  class sets.
\<close>

record selection_set_to_object =
  sso_processor :: processor
  sso_schema :: schema
  sso_convertName :: "string \<Rightarrow> bool \<Rightarrow> string \<Rightarrow> string"
  sso_loadedFragments :: "loaded_fragment list"
  sso_config :: documents_config

text \<open>An entry of the type map: a selection node, or the usage token of a fragment.\<close>

datatype item = Node selection_node | Usage string

type_synonym type_map = "(string \<times> item list) list"

subsection \<open>Flattening\<close>

text \<open>
  \<^verbatim>\<open>_appendToTypeMap\<close>: the entry is created when missing, also when there is nothing to
  push; \<open>None\<close> is an \<^verbatim>\<open>undefined\<close> array of nodes.
\<close>

definition appendToTypeMap :: "('k \<times> 'v list) list \<Rightarrow> 'k \<Rightarrow> 'v list option \<Rightarrow> ('k \<times> 'v list) list" where
  "appendToTypeMap types typeName nodes =
     (let types' = (if map_of types typeName = None then types @ [(typeName, [])] else types)
      in case nodes of
           None \<Rightarrow> types'
         | Some ns \<Rightarrow>
             if length ns > 0
             then map (\<lambda>(k, v). if k = typeName then (k, v @ ns) else (k, v)) types'
             else types')"

text \<open>\<^verbatim>\<open>buildFragmentTypeName\<close>: \<open>None\<close> and the empty string are the falsy type names.\<close>

definition buildFragmentTypeName ::
  "selection_set_to_object \<Rightarrow> string \<Rightarrow> string \<Rightarrow> string option \<Rightarrow> string" where
  "buildFragmentTypeName this name suffix typeName =
     sso_convertName this name True
       (case typeName of
          None \<Rightarrow> suffix
        | Some t \<Rightarrow> if t \<noteq> [] then ''_'' @ t @ ''_'' @ suffix else suffix)"

text \<open>\<^verbatim>\<open>toLowerCase\<close> on the letters A to Z, which is all that \<^verbatim>\<open>endsWith('fragment')\<close> can see.\<close>

definition toLowerCase :: "string \<Rightarrow> string" where
  "toLowerCase s =
     map (\<lambda>c. let n = (of_char c :: nat) in if 65 \<le> n \<and> n \<le> 90 then char_of (n + 32) else c) s"

definition endsWith :: "string \<Rightarrow> string \<Rightarrow> bool" where
  "endsWith s suffix = (length suffix \<le> length s \<and> drop (length s - length suffix) s = suffix)"

text \<open>
  \<^verbatim>\<open>buildFragmentSpreadsUsage\<close>. \<open>usagesOfSpread\<close> is the inner loop over the possible types
  of one fragment, \<open>pushUsage\<close> its last two statements. A spread that is not in the library is
  skipped. The possible-types resolver fails on a type condition that does not resolve in
  the schema.
\<close>

definition pushUsage :: "(string \<times> string list) list \<Rightarrow> string \<Rightarrow> string \<Rightarrow> (string \<times> string list) list" where
  "pushUsage m typeName usage =
     (let m' = (if map_of m typeName = None then m @ [(typeName, [])] else m)
      in map (\<lambda>(k, v). if k = typeName then (k, v @ [usage]) else (k, v)) m')"

fun usagesOfSpread ::
  "selection_set_to_object \<Rightarrow> string \<Rightarrow> nat \<Rightarrow> named_type list \<Rightarrow> (string \<times> string list) list
   \<Rightarrow> (string \<times> string list) list" where
  "usagesOfSpread this spreadName n [] m = m"
| "usagesOfSpread this spreadName n (possibleType # rest) m =
     (let fragmentSuffix =
            (if dedupeOperationSuffix (sso_config this) \<and> endsWith (toLowerCase spreadName) ''fragment''
             then [] else ''Fragment'');
          usage = buildFragmentTypeName this spreadName fragmentSuffix
                    (if n = 1 then None else Some (type_name possibleType))
      in usagesOfSpread this spreadName n rest (pushUsage m (type_name possibleType) usage))"

fun spreadsUsageLoop ::
  "selection_set_to_object \<Rightarrow> selection_node list \<Rightarrow> (string \<times> string list) list
   \<Rightarrow> error + (string \<times> string list) list" where
  "spreadsUsageLoop this [] m = Inr m"
| "spreadsUsageLoop this (FragmentSpreadNode spreadName # rest) m =
     (case find (\<lambda>lf. fragment_name lf = spreadName) (sso_loadedFragments this) of
        None \<Rightarrow> spreadsUsageLoop this rest m
      | Some fragmentSpreadObject \<Rightarrow>
          (case getType (sso_schema this) (fragment_onType fragmentSpreadObject) of
             None \<Rightarrow> Inl RuntimeTypeError
           | Some schemaType \<Rightarrow>
               (let possibleTypesForFragment = getPossibleTypes (sso_schema this) schemaType
                in spreadsUsageLoop this rest
                     (usagesOfSpread this spreadName (length possibleTypesForFragment)
                        possibleTypesForFragment m))))"
| "spreadsUsageLoop this (FieldNode a n sel # rest) m = spreadsUsageLoop this rest m"
| "spreadsUsageLoop this (InlineFragmentNode c sels # rest) m = spreadsUsageLoop this rest m"

definition buildFragmentSpreadsUsage ::
  "selection_set_to_object \<Rightarrow> selection_node list \<Rightarrow> error + (string \<times> string list) list" where
  "buildFragmentSpreadsUsage this spreads = spreadsUsageLoop this spreads []"


text \<open>
  \<open>attach\<close> is the pair of calls of \<^verbatim>\<open>_appendToTypeMap\<close> that every branch of
  \<^verbatim>\<open>_collectInlineFragments\<close> makes for a type name: the fields of the fragment, then the
  usage tokens that the fragment's spreads give for that name.
\<close>

definition attach ::
  "type_map \<Rightarrow> string \<Rightarrow> selection_node list \<Rightarrow> (string \<times> string list) list \<Rightarrow> type_map" where
  "attach types typeName flds spreadsUsage =
     appendToTypeMap (appendToTypeMap types typeName (Some (map Node flds))) typeName
       (map_option (map Usage) (map_of spreadsUsage typeName))"

lemma size_list_filter_le: "size_list f (filter P xs) \<le> size_list f xs"
  by (induction xs) auto

text \<open>
  \<^verbatim>\<open>_collectInlineFragments\<close>, for a named parent type (the source's first branch only unwraps
  a list or non-null parent). \<open>collectInlineFragments\<close> is the loop over the nodes,
  \<open>collectNode\<close> its body for one node with the test on the kind of the parent, and
  \<open>collectPossibleTypes\<close> the inner loop over possible types of the interface and union
  branches, which repeats the recursive call once for every possible type. In the union
  branch the inner loop runs over the members that pass the test on
  \<^verbatim>\<open>possibleInterfaceTypes\<close>. A node's type condition that is not in the schema gives
  \<^verbatim>\<open>undefined\<close>, which is neither an object nor an interface type. The nodes are inline
  fragments (\<^verbatim>\<open>InlineFragmentNode[]\<close>); on any other node the embedding fails.

  On an object parent, a type condition that names an interface is tested with
  \<^verbatim>\<open>parentType.isTypeOf(typeOnSchema, null, null)\<close>: the call fails when the object type has no
  \<^verbatim>\<open>isTypeOf\<close>, and otherwise the predicate decides, not the interfaces the type declares.
\<close>

function (sequential) collectInlineFragments ::
    "selection_set_to_object \<Rightarrow> named_type \<Rightarrow> selection_node list \<Rightarrow> type_map \<Rightarrow> error + type_map"
  and collectNode ::
    "selection_set_to_object \<Rightarrow> named_type \<Rightarrow> selection_node \<Rightarrow> type_map \<Rightarrow> error + type_map"
  and collectPossibleTypes ::
    "selection_set_to_object \<Rightarrow> named_type \<Rightarrow> selection_node list \<Rightarrow> selection_node list
     \<Rightarrow> (string \<times> string list) list \<Rightarrow> named_type list \<Rightarrow> type_map \<Rightarrow> error + type_map"
where
  "collectInlineFragments this parentType [] types = Inr types"
| "collectInlineFragments this parentType (node # rest) types =
     (case collectNode this parentType node types of
        Inl e \<Rightarrow> Inl e
      | Inr types' \<Rightarrow> collectInlineFragments this parentType rest types')"
| "collectNode this parentType (InlineFragmentNode typeCondition selections) types =
     (if \<not> (isObjectType parentType \<or> isInterfaceType parentType \<or> isUnionType parentType)
      then Inr types
      else
        (let schemaType =
               (case typeCondition of
                  Some n \<Rightarrow> getType (sso_schema this) n
                | None \<Rightarrow> Some parentType);
             (flds, inlines, spreads) = separateSelectionSet selections
         in case buildFragmentSpreadsUsage this spreads of
              Inl e \<Rightarrow> Inl e
            | Inr spreadsUsage \<Rightarrow>
               (case schemaType of
                  None \<Rightarrow> Inr types
                | Some typeOnSchema \<Rightarrow>
                   if isObjectType parentType then
                     (if isObjectType typeOnSchema then
                        collectInlineFragments this typeOnSchema inlines
                          (attach types (type_name typeOnSchema) flds spreadsUsage)
                      else if isInterfaceType typeOnSchema then
                        (case isTypeOf parentType of
                           None \<Rightarrow> Inl RuntimeTypeError
                         | Some p \<Rightarrow>
                             if p (type_name typeOnSchema) then
                               collectInlineFragments this typeOnSchema inlines
                                 (attach types (type_name parentType) flds spreadsUsage)
                             else Inr types)
                      else Inr types)
                   else if isInterfaceType parentType then
                     (let possibleTypes = getPossibleTypes (sso_schema this) parentType in
                      if isObjectType typeOnSchema \<and>
                         type_name typeOnSchema \<in> set (map type_name possibleTypes) then
                        collectInlineFragments this typeOnSchema inlines
                          (attach types (type_name typeOnSchema) flds spreadsUsage)
                      else if isInterfaceType typeOnSchema \<and>
                              type_name typeOnSchema = type_name parentType then
                        collectPossibleTypes this typeOnSchema inlines flds spreadsUsage
                          possibleTypes types
                      else Inr types)
                   else
                     (let possibleTypes = getTypes (sso_schema this) parentType in
                      if isObjectType typeOnSchema \<and>
                         type_name typeOnSchema \<in> set (map type_name possibleTypes) then
                        collectInlineFragments this typeOnSchema inlines
                          (attach types (type_name typeOnSchema) flds spreadsUsage)
                      else if isInterfaceType typeOnSchema then
                        (let possibleInterfaceTypes =
                               getPossibleTypes (sso_schema this) typeOnSchema
                         in collectPossibleTypes this typeOnSchema inlines flds spreadsUsage
                              (filter (\<lambda>possibleType. type_name possibleType \<in>
                                         set (map type_name possibleInterfaceTypes))
                                 possibleTypes)
                              types)
                      else Inr types))))"
| "collectNode this parentType (FieldNode al name sel) types =
     (if \<not> (isObjectType parentType \<or> isInterfaceType parentType \<or> isUnionType parentType)
      then Inr types
      else Inl RuntimeTypeError)"
| "collectNode this parentType (FragmentSpreadNode name) types =
     (if \<not> (isObjectType parentType \<or> isInterfaceType parentType \<or> isUnionType parentType)
      then Inr types
      else Inl RuntimeTypeError)"
| "collectPossibleTypes this schemaType inlines flds spreadsUsage [] types = Inr types"
| "collectPossibleTypes this schemaType inlines flds spreadsUsage (possibleType # rest) types =
     (case collectInlineFragments this schemaType inlines
             (attach types (type_name possibleType) flds spreadsUsage) of
        Inl e \<Rightarrow> Inl e
      | Inr types' \<Rightarrow>
          collectPossibleTypes this schemaType inlines flds spreadsUsage rest types')"
  by pat_completeness auto
termination
  by (relation "inv_image (less_than <*lex*> less_than)
        (\<lambda>x. case x of
               Inl (this, parentType, nodes, types) \<Rightarrow> (size_list size nodes, 0)
             | Inr (Inl (this, parentType, node, types)) \<Rightarrow> (size node, 0)
             | Inr (Inr (this, schemaType, inlines, flds, spreadsUsage, pts, types)) \<Rightarrow>
                 (size_list size inlines, Suc (length pts)))")
     (auto simp: separateSelectionSet_def le_imp_less_Suc size_list_filter_le
           intro: le_less_trans[OF size_list_filter_le])

text \<open>
  \<^verbatim>\<open>flattenSelectionSet\<close> for the parent type of the instance. The plain fields are wrapped
  into one more inline fragment on the parent type, pushed after the document's own inline
  fragments; the usage tokens of the top-level spreads are appended last, for every type
  name they have, in the order of \<^verbatim>\<open>Object.keys\<close> (insertion order: a type name is no
  integer index).
\<close>

definition createInlineFragmentForFieldNodes :: "named_type \<Rightarrow> selection_node list \<Rightarrow> selection_node" where
  "createInlineFragmentForFieldNodes parentType fieldNodes =
     InlineFragmentNode (Some (type_name parentType)) fieldNodes"

definition flattenSelectionSet ::
  "selection_set_to_object \<Rightarrow> named_type \<Rightarrow> selection_node list \<Rightarrow> error + type_map" where
  "flattenSelectionSet this parentSchemaType selections =
     (let fieldNodes = filter isField selections;
          inlineFragmentSelections =
            filter isInlineFragment selections @
            (if length fieldNodes > 0
             then [createInlineFragmentForFieldNodes parentSchemaType fieldNodes] else []);
          fragmentSpreads = filter isFragmentSpread selections
      in case collectInlineFragments this parentSchemaType inlineFragmentSelections [] of
           Inl e \<Rightarrow> Inl e
         | Inr selectionNodesByTypeName \<Rightarrow>
             (case buildFragmentSpreadsUsage this fragmentSpreads of
                Inl e \<Rightarrow> Inl e
              | Inr fragmentsUsage \<Rightarrow>
                  Inr (foldl (\<lambda>types typeName.
                               appendToTypeMap types typeName
                                 (map_option (map Usage) (map_of fragmentsUsage typeName)))
                         selectionNodesByTypeName (map fst fragmentsUsage))))"

subsection \<open>Classification of one concrete type's items\<close>

text \<open>
  The buffers of \<^verbatim>\<open>buildSelectionSetString\<close>. A JavaScript \<^verbatim>\<open>Map\<close> is an association list in
  insertion order; \<open>mapSet\<close> is \<^verbatim>\<open>Map.set\<close>, which replaces the value of a key in place and
  adds a new key at the end.
\<close>

fun mapSet :: "('k \<times> 'v) list \<Rightarrow> 'k \<Rightarrow> 'v \<Rightarrow> ('k \<times> 'v) list" where
  "mapSet [] k v = [(k, v)]"
| "mapSet ((k', v') # m) k v = (if k' = k then (k, v) # m else (k', v') # mapSet m k v)"

record classification =
  primitiveFields :: "(string \<times> selection_node) list"
  primitiveAliasFields :: "(string \<times> selection_node) list"
  linkFieldSelectionSets :: "(string \<times> graphql_type \<times> selection_node) list"
  requireTypename :: bool
  fragmentsSpreadUsages :: "string list"

definition emptyClassification :: classification where
  "emptyClassification =
     \<lparr>primitiveFields = [], primitiveAliasFields = [], linkFieldSelectionSets = [],
      requireTypename = False, fragmentsSpreadUsages = []\<rparr>"

text \<open>
  The types of the two meta fields of the library, \<^verbatim>\<open>SchemaMetaFieldDef\<close> (\<^verbatim>\<open>__Schema!\<close>) and
  \<^verbatim>\<open>TypeMetaFieldDef\<close> (\<^verbatim>\<open>__Type\<close>).
\<close>

definition isMetadataFieldName :: "string \<Rightarrow> bool" where
  "isMetadataFieldName name = (name \<in> set [''__schema'', ''__type''])"

definition metadataFieldMap :: "string \<Rightarrow> graphql_type option" where
  "metadataFieldMap name =
     (if name = ''__schema'' then Some (NonNullType (NamedType ''__Schema''))
      else if name = ''__type'' then Some (NamedType ''__Type'')
      else None)"

text \<open>
  The field of the schema that a field with a selection set selects: the parent's field of
  that name, or the meta field for the two meta names; \<open>None\<close> is the falsy
  \<^verbatim>\<open>selectedField\<close> on which the source throws.
\<close>

definition selectedFieldType :: "named_type \<Rightarrow> string \<Rightarrow> graphql_type option" where
  "selectedFieldType parentSchemaType name =
     (if isMetadataFieldName name then metadataFieldMap name
      else map_option field_type (getField parentSchemaType name))"

text \<open>
  One round of the loop over \<^verbatim>\<open>selectionNodes\<close>. A second field with the response key of a
  link field is merged into the first: the source calls \<^verbatim>\<open>mergeSelectionSets\<close> on the first
  node's selection set, which it updates in place; the embedding stores the first node with
  the merged selection set. The nodes of a list are read as the document has them: the type
  map of the source holds references, so that a node standing in the lists of several
  concrete types carries an update made for one type into the classification of the next,
  and this sharing between lists is not part of the embedding.
\<close>

definition classifyNode :: "named_type \<Rightarrow> classification \<Rightarrow> item \<Rightarrow> error + classification" where
  "classifyNode parentSchemaType st selectionNode =
     (case selectionNode of
        Usage u \<Rightarrow> Inr (st\<lparr>fragmentsSpreadUsages := fragmentsSpreadUsages st @ [u]\<rparr>)
      | Node (FieldNode al name None) \<Rightarrow>
          (case al of
             Some a \<Rightarrow>
               Inr (st\<lparr>primitiveAliasFields :=
                          mapSet (primitiveAliasFields st) a (FieldNode al name None)\<rparr>)
           | None \<Rightarrow>
               if name = ''__typename'' then Inr (st\<lparr>requireTypename := True\<rparr>)
               else Inr (st\<lparr>primitiveFields :=
                               mapSet (primitiveFields st) name (FieldNode al name None)\<rparr>))
      | Node (FieldNode al name (Some selectionSet)) \<Rightarrow>
          (case selectedFieldType parentSchemaType name of
             None \<Rightarrow>
               Inl (TypeError (''Could not find field type. '' @ type_name parentSchemaType
                                @ ''.'' @ name))
           | Some ty \<Rightarrow>
               (let fieldName = getFieldNodeNameValue (FieldNode al name (Some selectionSet)) in
                case map_of (linkFieldSelectionSets st) fieldName of
                  None \<Rightarrow>
                    Inr (st\<lparr>linkFieldSelectionSets :=
                               mapSet (linkFieldSelectionSets st) fieldName
                                 (ty, FieldNode al name (Some selectionSet))\<rparr>)
                | Some (ty1, FieldNode al1 name1 (Some selectionSet1)) \<Rightarrow>
                    Inr (st\<lparr>linkFieldSelectionSets :=
                               mapSet (linkFieldSelectionSets st) fieldName
                                 (ty1, FieldNode al1 name1
                                         (Some (mergeSelectionSets selectionSet1 selectionSet)))\<rparr>)
                | Some other \<Rightarrow> Inl RuntimeTypeError))
      | Node other \<Rightarrow> Inr st)"

fun classify :: "named_type \<Rightarrow> classification \<Rightarrow> item list \<Rightarrow> error + classification" where
  "classify parentSchemaType st [] = Inr st"
| "classify parentSchemaType st (selectionNode # rest) =
     (case classifyNode parentSchemaType st selectionNode of
        Inl e \<Rightarrow> Inl e
      | Inr st' \<Rightarrow> classify parentSchemaType st' rest)"

subsection \<open>Composition\<close>

record name_and_type =
  nt_name :: string
  nt_type :: string

text \<open>\<^verbatim>\<open>buildTypeNameField\<close> with its three flags; \<open>None\<close> is the \<^verbatim>\<open>null\<close> it returns.\<close>

definition buildTypeNameField ::
  "selection_set_to_object \<Rightarrow> named_type \<Rightarrow> bool \<Rightarrow> bool \<Rightarrow> bool \<Rightarrow> name_and_type option" where
  "buildTypeNameField this ty nonOptionalTypename' addTypename' queriedForTypename =
     (if nonOptionalTypename' \<or> addTypename' \<or> queriedForTypename then
        (let optionalTypename = (\<not> queriedForTypename \<and> \<not> nonOptionalTypename') in
         Some \<lparr>nt_name = formatNamedField (sso_processor this) ''__typename''
                            @ (if optionalTypename then ''?'' else []),
               nt_type = [CHR 0x27] @ type_name ty @ [CHR 0x27]\<rparr>)
      else None)"

text \<open>
  \<^verbatim>\<open>filter(Boolean)\<close> drops the empty strings from an array of strings or objects, and
  \<^verbatim>\<open>null\<close> as well.
\<close>

fun truthyItem :: "process_item \<Rightarrow> bool" where
  "truthyItem (Text s) = (s \<noteq> [])"
| "truthyItem (NameAndType n t) = True"

fun textsOf :: "process_item list \<Rightarrow> string list" where
  "textsOf [] = []"
| "textsOf (Text s # r) = s # textsOf r"
| "textsOf (NameAndType n t # r) = textsOf r"

fun objectsOf :: "process_item list \<Rightarrow> string list" where
  "objectsOf [] = []"
| "objectsOf (Text s # r) = objectsOf r"
| "objectsOf (NameAndType n t # r) = (n @ '': '' @ t) # objectsOf r"

text \<open>
  The end of \<^verbatim>\<open>buildSelectionSetString\<close>: the strings, then the merged record of the named
  entries, then the fragment usages; none gives \<^verbatim>\<open>null\<close>, one is returned as it is, several
  are joined into an intersection.
\<close>

definition composeFields :: "process_item list \<Rightarrow> string list \<Rightarrow> string option" where
  "composeFields transformed fragmentsSpreadUsages' =
     (let allStrings = textsOf transformed;
          allObjectsMerged = objectsOf transformed;
          mergedObjectsAsString =
            (if length allObjectsMerged > 0
             then [''{ '' @ js_join '', '' allObjectsMerged @ '' }''] else []);
          flds = filter (\<lambda>s. s \<noteq> [])
                   (allStrings @ mergedObjectsAsString @ fragmentsSpreadUsages')
      in case flds of
           [] \<Rightarrow> None
         | [f] \<Rightarrow> Some f
         | _ \<Rightarrow> Some (''('' @ [CHR 0x0A] @ ''  '' @ js_join ([CHR 0x0A] @ ''  & '') flds
                        @ [CHR 0x0A] @ '')''))"

text \<open>\<^verbatim>\<open>s.split('\n').join('\n  ')\<close>: two spaces after every line feed.\<close>

definition indentLines :: "string \<Rightarrow> string" where
  "indentLines s = concat (map (\<lambda>c. if c = CHR 0x0A then [CHR 0x0A] @ ''  '' else [c]) s)"

text \<open>
  The link fields, one for every entry of \<^verbatim>\<open>linkFieldSelectionSets\<close>. \<open>next\<close> stands for
  \<^verbatim>\<open>createNext(type, selectionSet).transformSelectionSet()\<close>, the transformation of the child
  selection set on the base type of the field. The library keeps a field's type as an
  object; here the base type is looked up by name, and a name that is not in the schema,
  which no schema of the library has, fails.
\<close>

fun buildLinkFields ::
  "selection_set_to_object \<Rightarrow> (named_type \<Rightarrow> selection_node list option \<Rightarrow> error + string)
   \<Rightarrow> (string \<times> graphql_type \<times> selection_node) list \<Rightarrow> error + link_field list" where
  "buildLinkFields this next [] = Inr []"
| "buildLinkFields this next ((k, ty, FieldNode al name selectionSet) # rest) =
     (case getType (sso_schema this) (getBaseType ty) of
        None \<Rightarrow> Inl RuntimeTypeError
      | Some realSelectedFieldType \<Rightarrow>
          (case next realSelectedFieldType selectionSet of
             Inl e \<Rightarrow> Inl e
           | Inr childText \<Rightarrow>
               (case buildLinkFields this next rest of
                  Inl e \<Rightarrow> Inl e
                | Inr linkFields \<Rightarrow>
                    Inr (\<lparr>link_alias = al, link_name = name,
                           link_type = type_name realSelectedFieldType,
                           link_selectionSet =
                             wrapTypeWithModifiers (sso_processor this)
                               (indentLines childText) ty\<rparr> # linkFields))))"
| "buildLinkFields this next (other # rest) = Inl RuntimeTypeError"

text \<open>\<^verbatim>\<open>buildSelectionSetString\<close>: classification, link fields, processor, composition.\<close>

definition buildSelectionSetString ::
  "selection_set_to_object \<Rightarrow> (named_type \<Rightarrow> selection_node list option \<Rightarrow> error + string)
   \<Rightarrow> named_type \<Rightarrow> item list \<Rightarrow> error + string option" where
  "buildSelectionSetString this next parentSchemaType selectionNodes =
     (case classify parentSchemaType emptyClassification selectionNodes of
        Inl e \<Rightarrow> Inl e
      | Inr st \<Rightarrow>
          (case buildLinkFields this next (linkFieldSelectionSets st) of
             Inl e \<Rightarrow> Inl e
           | Inr linkFields \<Rightarrow>
               (let typeInfoField =
                      buildTypeNameField this parentSchemaType
                        (nonOptionalTypename (sso_config this)) (addTypename (sso_config this))
                        (requireTypename st);
                    transformed =
                      filter truthyItem
                        ((case typeInfoField of
                            None \<Rightarrow> []
                          | Some f \<Rightarrow>
                              transformTypenameField (sso_processor this) (nt_type f) (nt_name f))
                         @ transformPrimitiveFields (sso_processor this) parentSchemaType
                             (map (\<lambda>(k, f). case f of FieldNode al name s \<Rightarrow> name | _ \<Rightarrow> [])
                                (primitiveFields st))
                         @ transformAliasesPrimitiveFields (sso_processor this) parentSchemaType
                             (map (\<lambda>(k, f). case f of FieldNode al name s \<Rightarrow> (k, name) | _ \<Rightarrow> (k, []))
                                (primitiveAliasFields st))
                         @ transformLinkFields (sso_processor this) linkFields)
                in Inr (composeFields transformed (fragmentsSpreadUsages st)))))"

text \<open>
  \<^verbatim>\<open>_buildGroupedSelections\<close>. \<open>groupedStep\<close> is the function of the \<^verbatim>\<open>reduce\<close> over the
  possible types of the parent; a falsy \<^verbatim>\<open>transformedSet\<close> (\<^verbatim>\<open>null\<close> or the empty string) is
  not pushed. \<open>None\<close> is a missing selection set.
  Every possible type is classified from the flattened map as flattening left it; what the
  in-place merge of an earlier type did to a node that also stands in the list of a later
  type is not followed (see the remark on \<open>classifyNode\<close>). The properties proved of the
  grouped collection, its keys and the number of fragments of an entry, hold for every
  content of the lists.
\<close>

definition groupedStep ::
  "selection_set_to_object \<Rightarrow> (named_type \<Rightarrow> selection_node list option \<Rightarrow> error + string)
   \<Rightarrow> type_map \<Rightarrow> (string \<times> string list) list \<Rightarrow> named_type
   \<Rightarrow> error + (string \<times> string list) list" where
  "groupedStep this next selectionNodesByTypeName prev ty =
     (let typeName = type_name ty in
      case getType (sso_schema this) typeName of
        None \<Rightarrow>
          Inl (TypeError (''Invalid state! Schema type '' @ typeName
                           @ '' is not a valid GraphQL object!''))
      | Some schemaType \<Rightarrow>
          if \<not> isObjectType schemaType then
            Inl (TypeError (''Invalid state! Schema type '' @ typeName
                             @ '' is not a valid GraphQL object!''))
          else
            (let selectionNodes =
                   (case map_of selectionNodesByTypeName typeName of
                      None \<Rightarrow> [] | Some ns \<Rightarrow> ns);
                 prev' = appendToTypeMap prev typeName None
             in case buildSelectionSetString this next schemaType selectionNodes of
                  Inl e \<Rightarrow> Inl e
                | Inr transformedSet \<Rightarrow>
                    (case transformedSet of
                       None \<Rightarrow> Inr prev'
                     | Some t \<Rightarrow>
                         if t \<noteq> [] then Inr (appendToTypeMap prev' typeName (Some [t]))
                         else Inr prev')))"

fun groupedReduce ::
  "selection_set_to_object \<Rightarrow> (named_type \<Rightarrow> selection_node list option \<Rightarrow> error + string)
   \<Rightarrow> type_map \<Rightarrow> (string \<times> string list) list \<Rightarrow> named_type list
   \<Rightarrow> error + (string \<times> string list) list" where
  "groupedReduce this next byType prev [] = Inr prev"
| "groupedReduce this next byType prev (ty # rest) =
     (case groupedStep this next byType prev ty of
        Inl e \<Rightarrow> Inl e
      | Inr prev' \<Rightarrow> groupedReduce this next byType prev' rest)"

definition buildGroupedSelections ::
  "selection_set_to_object \<Rightarrow> (named_type \<Rightarrow> selection_node list option \<Rightarrow> error + string)
   \<Rightarrow> named_type \<Rightarrow> selection_node list option \<Rightarrow> error + (string \<times> string list) list" where
  "buildGroupedSelections this next parentSchemaType selectionSet =
     (case selectionSet of
        None \<Rightarrow> Inr []
      | Some selections \<Rightarrow>
          if length selections = 0 then Inr []
          else
            (case flattenSelectionSet this parentSchemaType selections of
               Inl e \<Rightarrow> Inl e
             | Inr selectionNodesByTypeName \<Rightarrow>
                 groupedReduce this next selectionNodesByTypeName []
                   (getPossibleTypes (sso_schema this) parentSchemaType)))"

text \<open>
  \<^verbatim>\<open>transformSelectionSet\<close>. \<open>composeGrouped\<close> is the chain on \<^verbatim>\<open>Object.keys(grouped)\<close>: every
  type name gives \<^verbatim>\<open>null\<close>, its one fragment, or the intersection of its fragments; the
  truthy results are joined into a union.
\<close>

definition relevantOf :: "string list \<Rightarrow> string option" where
  "relevantOf fragments =
     (case filter (\<lambda>s. s \<noteq> []) fragments of
        [] \<Rightarrow> None
      | [r] \<Rightarrow> Some r
      | relevant \<Rightarrow> Some (''( '' @ js_join '' & '' relevant @ '' )''))"

definition composeGrouped :: "(string \<times> string list) list \<Rightarrow> string" where
  "composeGrouped grouped =
     js_join '' | ''
       (filter (\<lambda>s. s \<noteq> []) (List.map_filter (\<lambda>(typeName, fragments). relevantOf fragments) grouped))"

definition transformSelectionSetWith ::
  "selection_set_to_object \<Rightarrow> (named_type \<Rightarrow> selection_node list option \<Rightarrow> error + string)
   \<Rightarrow> named_type \<Rightarrow> selection_node list option \<Rightarrow> error + string" where
  "transformSelectionSetWith this next parentSchemaType selectionSet =
     (case buildGroupedSelections this next parentSchemaType selectionSet of
        Inl e \<Rightarrow> Inl e
      | Inr grouped \<Rightarrow> Inr (composeGrouped grouped))"


text \<open>
  The recursion through \<^verbatim>\<open>createNext\<close> follows the nesting of the selection sets. The
  embedding bounds it by a number of levels; \<open>Inl OutOfFuel\<close> marks a run that the bound cut
  off and is no exception of the source.
\<close>

primrec transformSelectionSet ::
  "nat \<Rightarrow> selection_set_to_object \<Rightarrow> named_type \<Rightarrow> selection_node list option \<Rightarrow> error + string" where
  "transformSelectionSet 0 this = (\<lambda>parentSchemaType selectionSet. Inl OutOfFuel)"
| "transformSelectionSet (Suc n) this =
     transformSelectionSetWith this (transformSelectionSet n this)"

subsection \<open>The type modifiers of the Flow documents visitor\<close>

text \<open>
  \<^verbatim>\<open>clearOptional\<close> and \<^verbatim>\<open>wrapTypeWithModifiers\<close> as the constructor of \<^verbatim>\<open>FlowDocumentsVisitor\<close>
  defines them: non-null strips one leading question mark, a list wraps into an optional
  array, a named type becomes optional.
\<close>

definition clearOptional :: "string \<Rightarrow> string" where
  "clearOptional str = (if take 1 str = ''?'' then drop 1 str else str)"

fun flowWrapTypeWithModifiers :: "string \<Rightarrow> graphql_type \<Rightarrow> string" where
  "flowWrapTypeWithModifiers baseType (NonNullType t) = clearOptional (flowWrapTypeWithModifiers baseType t)"
| "flowWrapTypeWithModifiers baseType (ListType t) = ''?Array<'' @ flowWrapTypeWithModifiers baseType t @ ''>''"
| "flowWrapTypeWithModifiers baseType (NamedType n) = ''?'' @ baseType"

subsection \<open>An example schema, processor and instance\<close>

text \<open>
  \<^verbatim>\<open>interface Node { id: ID! }\<close>, \<^verbatim>\<open>type Dog implements Node { id: ID!  bark: String  friend: Node }\<close>,
  \<^verbatim>\<open>type Cat implements Node { id: ID!  meow: String  friend: Node }\<close>, \<^verbatim>\<open>union Pet = Dog | Cat\<close>,
  built from SDL, so that no object type has an \<^verbatim>\<open>isTypeOf\<close>. The example processor projects
  primitive fields onto the schema type and writes link fields as named entries.
\<close>

definition plainField :: "string \<Rightarrow> graphql_type \<Rightarrow> graphql_field" where
  "plainField n t = \<lparr>field_name = n, field_type = t, field_astNode = None\<rparr>"

definition exNode :: named_type where
  "exNode = GraphQLInterfaceType ''Node'' [plainField ''id'' (NonNullType (NamedType ''ID''))]"

definition exDog :: named_type where
  "exDog = GraphQLObjectType ''Dog'' [''Node'']
     [plainField ''id'' (NonNullType (NamedType ''ID'')),
      plainField ''bark'' (NamedType ''String''),
      plainField ''friend'' (NamedType ''Node'')]
     None None"

definition exCat :: named_type where
  "exCat = GraphQLObjectType ''Cat'' [''Node'']
     [plainField ''id'' (NonNullType (NamedType ''ID'')),
      plainField ''meow'' (NamedType ''String''),
      plainField ''friend'' (NamedType ''Node'')]
     None None"

definition exPet :: named_type where
  "exPet = GraphQLUnionType ''Pet'' [''Dog'', ''Cat'']"

definition exSchema :: schema where
  "exSchema = [exNode, exDog, exCat, exPet, GraphQLScalarType ''ID'', GraphQLScalarType ''String'']"

definition exProcessor :: processor where
  "exProcessor =
     \<lparr>transformTypenameField = (\<lambda>ty name. [NameAndType name ty]),
      transformPrimitiveFields = (\<lambda>parent names.
         if names = [] then []
         else [Text (''Pick<'' @ type_name parent @ '', ''
                      @ js_join '' | '' (map (\<lambda>n. [CHR 0x27] @ n @ [CHR 0x27]) names) @ ''>'')]),
      transformAliasesPrimitiveFields = (\<lambda>parent aliases.
         map (\<lambda>(al, fieldName). NameAndType al (type_name parent @ ''.'' @ fieldName)) aliases),
      transformLinkFields = (\<lambda>links.
         map (\<lambda>l. NameAndType (case link_alias l of Some a \<Rightarrow> a | None \<Rightarrow> link_name l)
                     (link_selectionSet l)) links),
      formatNamedField = (\<lambda>name. name),
      wrapTypeWithModifiers = flowWrapTypeWithModifiers\<rparr>"

definition exConfig :: documents_config where
  "exConfig = \<lparr>nonOptionalTypename = False, addTypename = False, dedupeOperationSuffix = False\<rparr>"

definition exThis :: selection_set_to_object where
  "exThis =
     \<lparr>sso_processor = exProcessor, sso_schema = exSchema,
      sso_convertName = (\<lambda>name useTypesPrefix suffix. name @ suffix),
      sso_loadedFragments = [\<lparr>fragment_name = ''F'', fragment_onType = ''Node''\<rparr>,
                             \<lparr>fragment_name = ''DogParts'', fragment_onType = ''Dog''\<rparr>],
      sso_config = exConfig\<rparr>"

text \<open>
  A selection on \<^verbatim>\<open>Node\<close>, \<^verbatim>\<open>{ id ... on Dog { bark } ... on Cat { meow } }\<close>, and an item list
  for \<^verbatim>\<open>Dog\<close> in which \<^verbatim>\<open>friend\<close> is selected twice under its name and once under an alias.
\<close>

definition exPetSelection :: "selection_node list" where
  "exPetSelection =
     [FieldNode None ''id'' None,
      InlineFragmentNode (Some ''Dog'') [FieldNode None ''bark'' None],
      InlineFragmentNode (Some ''Cat'') [FieldNode None ''meow'' None]]"

definition exDogItems :: "item list" where
  "exDogItems =
     [Node (FieldNode None ''friend'' (Some [FieldNode None ''id'' None])),
      Node (FieldNode None ''bark'' None),
      Node (FieldNode None ''friend'' (Some [FieldNode None ''id'' None, FragmentSpreadNode ''F''])),
      Node (FieldNode (Some ''pal'') ''friend'' (Some [FieldNode None ''id'' None]))]"

subsection \<open>Notions used to state the properties\<close>

text \<open>
  \<open>usagesAt m k\<close> reads an entry of a map of lists, the empty list when there is none.
  \<open>usageToken\<close> is the usage token of a fragment for one of the \<open>n\<close> possible types of its
  type condition, and \<open>spreadTokens this k spread\<close> lists the tokens a spread gives to the
  type name \<open>k\<close>.
\<close>

definition usagesAt :: "(string \<times> 'v list) list \<Rightarrow> string \<Rightarrow> 'v list" where
  "usagesAt m k = (case map_of m k of None \<Rightarrow> [] | Some v \<Rightarrow> v)"

definition fragmentSuffixOf :: "selection_set_to_object \<Rightarrow> string \<Rightarrow> string" where
  "fragmentSuffixOf this spreadName =
     (if dedupeOperationSuffix (sso_config this) \<and> endsWith (toLowerCase spreadName) ''fragment''
      then [] else ''Fragment'')"

definition usageToken :: "selection_set_to_object \<Rightarrow> string \<Rightarrow> nat \<Rightarrow> string \<Rightarrow> string" where
  "usageToken this spreadName n typeName =
     sso_convertName this spreadName True
       (if n > 1 then ''_'' @ typeName @ ''_'' @ fragmentSuffixOf this spreadName
        else fragmentSuffixOf this spreadName)"

definition spreadTokens :: "selection_set_to_object \<Rightarrow> string \<Rightarrow> selection_node \<Rightarrow> string list" where
  "spreadTokens this k spread =
     (case spread of
        FragmentSpreadNode spreadName \<Rightarrow>
          (case find (\<lambda>lf. fragment_name lf = spreadName) (sso_loadedFragments this) of
             None \<Rightarrow> []
           | Some fragment \<Rightarrow>
               (case getType (sso_schema this) (fragment_onType fragment) of
                  None \<Rightarrow> []
                | Some ty \<Rightarrow>
                    (let pts = getPossibleTypes (sso_schema this) ty
                     in map (\<lambda>T. usageToken this spreadName (length pts) (type_name T))
                          (filter (\<lambda>T. type_name T = k) pts))))
      | _ \<Rightarrow> [])"

text \<open>
  The link fields of an item list: \<open>linkOccurrences k items\<close> are the fields with a selection
  set and the response key \<open>k\<close>, in order; \<open>mergedLink\<close> is the first of them with the child
  selection sets of the later ones merged into its own, together with the type of the
  schema field it selects. \<open>unknownLink\<close> holds of a field with a selection set whose name is
  neither a field of the parent nor a meta field. \<open>wfLinks\<close> says that the buffer of link
  fields holds fields with selection sets only.
\<close>

fun isLinkFor :: "string \<Rightarrow> item \<Rightarrow> bool" where
  "isLinkFor k (Node (FieldNode al name (Some ss))) = (getFieldNodeNameValue (FieldNode al name (Some ss)) = k)"
| "isLinkFor k _ = False"

definition linkOccurrences :: "string \<Rightarrow> item list \<Rightarrow> item list" where
  "linkOccurrences k items = filter (isLinkFor k) items"

fun childSelections :: "item \<Rightarrow> selection_node list" where
  "childSelections (Node (FieldNode al name (Some ss))) = ss"
| "childSelections _ = []"

definition mergedLink :: "named_type \<Rightarrow> item list \<Rightarrow> (graphql_type \<times> selection_node) option" where
  "mergedLink parent occ =
     (case occ of
        Node (FieldNode al name (Some ss)) # later \<Rightarrow>
          (case selectedFieldType parent name of
             Some ty \<Rightarrow>
               Some (ty, FieldNode al name
                           (Some (foldl mergeSelectionSets ss (map childSelections later))))
           | None \<Rightarrow> None)
      | _ \<Rightarrow> None)"

definition unknownLink :: "named_type \<Rightarrow> item \<Rightarrow> bool" where
  "unknownLink parent it =
     (case it of
        Node (FieldNode al name (Some ss)) \<Rightarrow>
          \<not> isMetadataFieldName name \<and> getField parent name = None
      | _ \<Rightarrow> False)"

definition wfLinks :: "classification \<Rightarrow> bool" where
  "wfLinks st = list_all (\<lambda>(k, ty, f). case f of FieldNode al n (Some ss) \<Rightarrow> True | _ \<Rightarrow> False)
                  (linkFieldSelectionSets st)"

text \<open>
  The grouped collection holds, for every type name, the list of the composed fragments
  pushed for it. \<open>contributing\<close> lists the fragments that are there and not empty, in the
  order of the type names: the non-null composed fragments of the concrete types.
\<close>

definition contributing :: "(string \<times> string list) list \<Rightarrow> string list" where
  "contributing grouped = filter (\<lambda>s. s \<noteq> []) (concat (map snd grouped))"


subsection \<open>Measures on documents\<close>

text \<open>
  The response keys of the fields of a selection set, in document order.
\<close>

definition fieldKeys :: "selection_node list \<Rightarrow> string list" where
  "fieldKeys ss = map getFieldNodeNameValue (filter isField ss)"

text \<open>
  The nesting depth of a selection: a field with a nested selection set is one level deeper
  than the deepest selection below it, an inline fragment is as deep as its deepest selection.
  \<open>transformSelectionSet\<close> descends one level for every link field, so this is the
  quantity its fuel is compared with.
\<close>

fun listMax :: "nat list \<Rightarrow> nat" where
  "listMax [] = 0"
| "listMax (x # xs) = max x (listMax xs)"

fun depth :: "selection_node \<Rightarrow> nat" where
  "depth (FieldNode a n None) = 0"
| "depth (FieldNode a n (Some ss)) = Suc (listMax (map depth ss))"
| "depth (InlineFragmentNode c ss) = listMax (map depth ss)"
| "depth (FragmentSpreadNode n) = 0"

definition selDepth :: "selection_node list \<Rightarrow> nat" where
  "selDepth ss = listMax (map depth ss)"

fun itemDepth :: "item \<Rightarrow> nat" where
  "itemDepth (Node n) = depth n"
| "itemDepth (Usage u) = 0"

text \<open>
  A flattened map whose nodes are all of depth at most \<open>d\<close>; a result of the collector that
  is either such a map or an error of the source; link entries whose nested selection sets are
  all of depth below \<open>d\<close>.
\<close>

definition typesBound :: "nat \<Rightarrow> type_map \<Rightarrow> bool" where
  "typesBound d types = (\<forall>p \<in> set types. \<forall>it \<in> set (snd p). itemDepth it \<le> d)"

definition collectOk :: "nat \<Rightarrow> error + type_map \<Rightarrow> bool" where
  "collectOk d r = (case r of Inl e \<Rightarrow> e \<noteq> OutOfFuel | Inr t \<Rightarrow> typesBound d t)"

definition linksOk :: "nat \<Rightarrow> (string \<times> graphql_type \<times> selection_node) list \<Rightarrow> bool" where
  "linksOk d links =
     (\<forall>e \<in> set links. \<exists>al n ss. snd (snd e) = FieldNode al n (Some ss) \<and> selDepth ss < d)"


section \<open>Properties of the federation translator\<close>

subsection \<open>Splitting and deduplication\<close>

lemma split_ws_nonempty: "split_ws s \<noteq> []"
  by (induction s rule: split_ws.induct) (simp_all split: list.splits)

lemma split_ws_no_space: "\<forall>p \<in> set (split_ws s). \<forall>c \<in> set p. \<not> isSpace c"
proof (induction s rule: split_ws.induct)
  case 1
  then show ?case by simp
next
  case (2 c cs)
  show ?case
  proof (cases "isSpace c")
    case True
    from 2(1)[OF True] show ?thesis using True by simp
  next
    case False
    from 2(2)[OF False] show ?thesis using False by (cases "split_ws cs") simp_all
  qed
qed

lemma split_ws_plain: "\<forall>c \<in> set a. \<not> isSpace c \<Longrightarrow> split_ws a = [a]"
  by (induction a) simp_all

lemma dropWhile_run:
  "\<forall>c \<in> set ws. isSpace c \<Longrightarrow> b = [] \<or> \<not> isSpace (hd b) \<Longrightarrow> dropWhile isSpace (ws @ b) = b"
  by (induction ws) (cases b; auto)+

lemma split_ws_run:
  assumes "\<forall>c \<in> set a. \<not> isSpace c" "ws \<noteq> []" "\<forall>c \<in> set ws. isSpace c"
    "b = [] \<or> \<not> isSpace (hd b)"
  shows "split_ws (a @ ws @ b) = a # split_ws b"
  using assms(1)
proof (induction a)
  case Nil
  obtain w ws' where ws: "ws = w # ws'" using assms(2) by (cases ws) auto
  have "dropWhile isSpace (ws' @ b) = b"
    using assms(3,4) ws by (intro dropWhile_run) auto
  then show ?case using assms(3) ws by simp
next
  case (Cons x a)
  then show ?case by simp
qed


lemma indexOf_append_here:
  "indexOf (pre @ y # ys) y = Some (length pre) \<longleftrightarrow> y \<notin> set pre"
  by (induction pre) auto

lemma dedup_gen:
  "map fst (filter (\<lambda>(item, i). indexOf (pre @ ys) item = Some i)
      (zip ys [length pre..<length pre + length ys])) = firsts pre ys"
proof (induction ys arbitrary: pre)
  case Nil
  then show ?case by simp
next
  case (Cons y ys)
  have u: "[length pre..<length pre + length (y # ys)] =
        length pre # [length (pre @ [y])..<length (pre @ [y]) + length ys]"
    by (subst upt_conv_Cons) auto
  show ?case
    using Cons.IH[of "pre @ [y]"] indexOf_append_here[of pre y ys]
    unfolding u by simp
qed

lemma deduplicate_firsts: "deduplicate xs = firsts [] xs"
  using dedup_gen[of "[]" xs] by (simp add: deduplicate_def)

lemma firsts_set: "set (firsts seen ys) = set ys - set seen"
  by (induction ys arbitrary: seen) auto

lemma firsts_distinct: "distinct (firsts seen ys)"
  by (induction ys arbitrary: seen) (auto simp: firsts_set)

lemma set_deduplicate: "set (deduplicate xs) = set xs"
  by (simp add: deduplicate_firsts firsts_set)

lemma distinct_deduplicate: "distinct (deduplicate xs)"
  by (simp add: deduplicate_firsts firsts_distinct)

subsection \<open>Field-set extraction\<close>

text \<open>
  Claim C7. Field-set extraction from a directive that has a \<^verbatim>\<open>fields\<close> argument fails exactly
  when the argument string contains a brace character, and then with the error "Nested
  fields in _FieldSet is not supported"; otherwise it returns the pieces of the string split
  on white space, deduplicated: a list without repetitions that has the same members as the
  list of pieces.
\<close>

theorem extractFieldSet_spec:
  assumes "find (\<lambda>arg. fst arg = ''fields'') (directive_arguments d) = Some (k, v)"
  shows "extractFieldSet d =
           (if CHR ''{'' \<in> set v \<or> CHR ''}'' \<in> set v
            then Inl (Error ''Nested fields in _FieldSet is not supported'')
            else Inr (deduplicate (split_ws v)))
         \<and> distinct (deduplicate (split_ws v))
         \<and> set (deduplicate (split_ws v)) = set (split_ws v)"
  using assms by (auto simp: extractFieldSet_def distinct_deduplicate set_deduplicate)

theorem extractFieldSet_spec_witness:
  "extractFieldSet (keyDirective ''id  name id'') = Inr [''id'', ''name'']
   \<and> extractFieldSet (keyDirective ''user { id }'') = Inl (Error ''Nested fields in _FieldSet is not supported'')"
proof -
  have f: "find (\<lambda>arg. fst arg = ''fields'') (directive_arguments (keyDirective ''id  name id'')) = Some (''fields'', ''id  name id'')"
    "find (\<lambda>arg. fst arg = ''fields'') (directive_arguments (keyDirective ''user { id }'')) = Some (''fields'', ''user { id }'')"
    by (simp_all add: keyDirective_def)
  have d: "deduplicate (split_ws ''id  name id'') = [''id'', ''name'']" by code_simp
  show ?thesis
    using extractFieldSet_spec[OF f(1)] extractFieldSet_spec[OF f(2)] d by simp
qed

subsection \<open>The parent type of the entity-resolution field\<close>

lemma mapE_map:
  "mapE (\<lambda>x. case f x of Inl e \<Rightarrow> Inl e | Inr y \<Rightarrow> Inr (g y)) xs =
     (case mapE f xs of Inl e \<Rightarrow> Inl e | Inr ys \<Rightarrow> Inr (map g ys))"
  by (induction xs) (auto split: sum.splits)

lemma federation_has_key:
  "isFederationObjectType t = Inr True \<Longrightarrow> getDirectivesByName ''key'' (astNode t) \<noteq> []"
  by (auto simp: isFederationObjectType_def getDirectivesByName_def Let_def filter_empty_conv
           split: option.splits)

text \<open>
  The code's reading of an annotation agrees with the notions above: it finds the \<^verbatim>\<open>fields\<close>
  argument, extracts the names of a field set without braces, filters the directives of a
  node by name and writes the projection.
\<close>

lemma find_fields_argument:
  "map_of args k = Some v \<Longrightarrow> find (\<lambda>arg. fst arg = k) args = Some (k, v)"
  by (induction args) (auto split: if_splits)

lemma extractFieldSet_names:
  "fieldsArgument d = Some v \<Longrightarrow> noBrace v \<Longrightarrow> extractFieldSet d = Inr (fieldSetNames v)"
  by (auto simp: fieldsArgument_def noBrace_def extractFieldSet_def fieldSetNames_def
      deduplicate_firsts dest!: find_fields_argument)

lemma mapE_extractFieldSet_names:
  "map fieldsArgument ds = map Some vs \<Longrightarrow> \<forall>v \<in> set vs. noBrace v \<Longrightarrow>
   mapE extractFieldSet ds = Inr (map fieldSetNames vs)"
proof (induction ds arbitrary: vs)
  case Nil
  then show ?case by simp
next
  case (Cons d ds)
  then obtain v vs' where vs: "vs = v # vs'" by (cases vs) auto
  with Cons.prems have "fieldsArgument d = Some v" "map fieldsArgument ds = map Some vs'"
    "noBrace v" "\<forall>v \<in> set vs'. noBrace v" by auto
  then show ?case using Cons.IH[of vs'] vs by (simp add: extractFieldSet_names)
qed

lemma mapE_total:
  "\<forall>x \<in> set xs. f x = Inr (g x) \<Longrightarrow> mapE f xs = Inr (map g xs)"
  by (induction xs) auto

lemma getDirectivesByName_annotations:
  "getDirectivesByName name (Some node) = annotationsNamed node name"
  by (simp add: getDirectivesByName_def annotationsNamed_def split: option.splits)

lemma translateFieldSet_pickOf:
  "translateFieldSet (map (\<lambda>n. \<lparr>item_name = n, item_required = r n\<rparr>) names) sig = pickOf sig names"
  by (simp add: translateFieldSet_def pickOf_def comp_def)

lemma translateParentType_of_items:
  assumes en: "fed_enabled fed"
    and obj: "isObjectType parentType"
    and fedty: "isFederationObjectType parentType = Inr True"
    and nm: "node_name fieldNode = ''__resolveReference''"
    and keys: "mapE primaryKeyItems (getDirectivesByName ''key'' (astNode parentType)) = Inr keyItems"
    and req: "requiresItems fieldNode parentType = Inr requires"
  shows "translateParentType fed fieldNode parentType sig =
           Inr ((case map (\<lambda>its. translateFieldSet its sig) keyItems of
                   [p] \<Rightarrow> p
                 | ps \<Rightarrow> ''('' @ js_join '' | '' ps @ '')'')
                @ (if requires = [] then [] else '' & '' @ translateFieldSet requires sig))"
proof -
  have ne: "getDirectivesByName ''key'' (astNode parentType) \<noteq> []"
    using fedty by (rule federation_has_key)
  then have kne: "keyItems \<noteq> []" using keys by (cases "getDirectivesByName ''key'' (astNode parentType)") (auto split: sum.splits)
  have out: "translateParentType fed fieldNode parentType sig =
      Inr (js_join '' ''
        ([concat [if length keyItems > 1 then ''('' else [],
                  js_join '' | '' (map (\<lambda>its. translateFieldSet its sig) keyItems),
                  if length keyItems > 1 then '')'' else []]] @
         (if requires \<noteq> [] then [''& '' @ translateFieldSet requires sig] else [])))"
    using en obj fedty nm ne keys req
    by (simp add: translateParentType_def mapE_map Let_def)
  have shape: "js_join '' ''
        ([concat [if length keyItems > 1 then ''('' else [],
                  js_join '' | '' (map (\<lambda>its. translateFieldSet its sig) keyItems),
                  if length keyItems > 1 then '')'' else []]] @
         (if requires \<noteq> [] then [''& '' @ translateFieldSet requires sig] else []))
       = (case map (\<lambda>its. translateFieldSet its sig) keyItems of
                   [p] \<Rightarrow> p
                 | ps \<Rightarrow> ''('' @ js_join '' | '' ps @ '')'')
                @ (if requires = [] then [] else '' & '' @ translateFieldSet requires sig)"
  proof (cases keyItems)
    case Nil
    then show ?thesis using kne by simp
  next
    case (Cons k ks)
    then show ?thesis by (cases ks) auto
  qed
  show ?thesis using out shape by simp
qed

text \<open>
  Where the translation does not apply, the signature is handed back as it is: with
  federation disabled, for a type that is no object type, for a root type or an
  introspection type, for a type without a \<^verbatim>\<open>key\<close> annotation, and for every field other
  than \<^verbatim>\<open>__resolveReference\<close>.
\<close>

lemma translateParentType_unchanged:
  assumes "astNode parentType = Some ast" "node_directives ast = Some ds"
    and "\<not> fed_enabled fed \<or> type_name parentType \<in> {''Query'', ''Mutation'', ''Subscription''}
         \<or> take 2 (type_name parentType) = ''__'' \<or> annotationsNamed ast ''key'' = []
         \<or> node_name fieldNode \<noteq> ''__resolveReference''"
  shows "translateParentType fed fieldNode parentType sig = Inr sig"
  using assms
  by (auto simp: translateParentType_def isFederationObjectType_def annotationsNamed_def
      filter_empty_conv Let_def)

lemma translateParentType_not_object:
  "\<not> isObjectType parentType \<Longrightarrow> translateParentType fed fieldNode parentType sig = Inr sig"
  by (simp add: translateParentType_def)

text \<open>
  Claim C6. Let federation be enabled, and take an object type that is neither a root type
  nor an introspection type, whose syntax node carries at least one \<^verbatim>\<open>key\<close> annotation, and
  the node of its synthesized field \<^verbatim>\<open>__resolveReference\<close>. The parameter type is built from
  the \<^verbatim>\<open>key\<close> annotations of the type and from no other annotation: every one of them gives
  the projection \<^verbatim>\<open>Pick<ParentType, ...>\<close> of the names of its field set, each of them marked
  required; a single key gives its projection bare, so that \<^verbatim>\<open>key(fields: "id")\<close> gives
  \<^verbatim>\<open>Pick<ParentType, 'id'>\<close>; two or more give the parenthesised union of the projections in
  the order of the annotations. The \<^verbatim>\<open>requires\<close> annotations of the field node, and no other
  annotation of it, intersect (\<^verbatim>\<open>&\<close>) one more projection, of all their names, onto that
  whole expression; the \<^verbatim>\<open>required\<close> flag of each of these names is the non-null wrapping of
  the parent's field of that name.
\<close>

theorem translateParentType_keys:
  assumes en: "fed_enabled fed"
    and obj: "isObjectType parentType"
    and ast: "astNode parentType = Some ast"
    and root: "type_name parentType \<notin> {''Query'', ''Mutation'', ''Subscription''}"
    and intro: "take 2 (type_name parentType) \<noteq> ''__''"
    and nm: "node_name fieldNode = ''__resolveReference''"
    and kvs: "map fieldsArgument (annotationsNamed ast ''key'') = map Some keySets"
    and kne: "keySets \<noteq> []"
    and rvs: "map fieldsArgument (annotationsNamed fieldNode ''requires'') = map Some requireSets"
    and nb: "\<forall>v \<in> set (keySets @ requireSets). noBrace v"
    and known: "\<forall>n \<in> set (concat (map fieldSetNames requireSets)). getField parentType n \<noteq> None"
  shows "translateParentType fed fieldNode parentType sig =
           Inr ((case map (\<lambda>v. pickOf sig (fieldSetNames v)) keySets of
                   [p] \<Rightarrow> p
                 | ps \<Rightarrow> ''('' @ js_join '' | '' ps @ '')'')
                @ (if concat (map fieldSetNames requireSets) = [] then []
                   else '' & '' @ pickOf sig (concat (map fieldSetNames requireSets))))
       \<and> mapE primaryKeyItems (annotationsNamed ast ''key'') =
           Inr (map (\<lambda>v. map (\<lambda>n. \<lparr>item_name = n, item_required = True\<rparr>) (fieldSetNames v)) keySets)
       \<and> requiresItems fieldNode parentType =
           Inr (map (\<lambda>n. \<lparr>item_name = n,
                           item_required = (\<exists>f. getField parentType n = Some f \<and> isNonNullType (field_type f))\<rparr>)
                  (concat (map fieldSetNames requireSets)))"
proof -
  let ?ks = "annotationsNamed ast ''key''"
  let ?mk = "\<lambda>n. \<lparr>item_name = n, item_required = True\<rparr>"
  let ?rq = "\<lambda>n. \<lparr>item_name = n,
                    item_required = (\<exists>f. getField parentType n = Some f \<and> isNonNullType (field_type f))\<rparr>"
  have kne': "?ks \<noteq> []" using kvs kne by auto
  then obtain ds where ds: "node_directives ast = Some ds"
    by (auto simp: annotationsNamed_def split: option.splits)
  have "\<exists>d \<in> set ds. directive_name d = ''key''"
    using kne' ds by (auto simp: annotationsNamed_def filter_empty_conv)
  then have fedty: "isFederationObjectType parentType = Inr True"
    using ast ds root intro by (simp add: isFederationObjectType_def Let_def)
  have gk: "getDirectivesByName ''key'' (astNode parentType) = ?ks"
    using ast by (simp add: getDirectivesByName_annotations)
  have ek: "mapE extractFieldSet ?ks = Inr (map fieldSetNames keySets)"
    using kvs nb by (intro mapE_extractFieldSet_names) auto
  have pk: "mapE primaryKeyItems ?ks = Inr (map (\<lambda>v. map ?mk (fieldSetNames v)) keySets)"
    using ek mapE_map[where f = extractFieldSet and g = "map ?mk" and xs = ?ks]
    by (simp add: primaryKeyItems_def[abs_def] comp_def)
  have er: "mapE extractFieldSet (getDirectivesByName ''requires'' (Some fieldNode))
              = Inr (map fieldSetNames requireSets)"
    unfolding getDirectivesByName_annotations
    using rvs nb by (intro mapE_extractFieldSet_names) auto
  have "\<forall>n \<in> set (concat (map fieldSetNames requireSets)).
          (case getField parentType n of
             None \<Rightarrow> Inl RuntimeTypeError
           | Some f \<Rightarrow> Inr \<lparr>item_name = n, item_required = isNonNullType (field_type f)\<rparr>) = Inr (?rq n)"
    using known by (auto split: option.splits)
  from mapE_total[OF this]
  have rq: "requiresItems fieldNode parentType = Inr (map ?rq (concat (map fieldSetNames requireSets)))"
    using er by (simp add: requiresItems_def)
  have out: "translateParentType fed fieldNode parentType sig =
           Inr ((case map (\<lambda>its. translateFieldSet its sig) (map (\<lambda>v. map ?mk (fieldSetNames v)) keySets) of
                   [p] \<Rightarrow> p
                 | ps \<Rightarrow> ''('' @ js_join '' | '' ps @ '')'')
                @ (if map ?rq (concat (map fieldSetNames requireSets)) = [] then []
                   else '' & '' @ translateFieldSet (map ?rq (concat (map fieldSetNames requireSets))) sig))"
    using pk rq by (intro translateParentType_of_items[OF en obj fedty nm]) (simp_all add: gk)
  have m: "map (\<lambda>its. translateFieldSet its sig) (map (\<lambda>v. map ?mk (fieldSetNames v)) keySets)
         = map (\<lambda>v. pickOf sig (fieldSetNames v)) keySets"
    by (simp add: translateFieldSet_pickOf comp_def)
  show ?thesis
    using out pk rq unfolding m translateFieldSet_pickOf by simp
qed

theorem translateParentType_keys_witness:
  "translateParentType exFederation exResolveReference exProduct ''ParentType'' =
     Inr ''Pick<ParentType, 'id'>''
   \<and> translateParentType exFederation exResolveReferenceNoted exReview ''ParentType'' =
     Inr ''Pick<ParentType, 'id'> & Pick<ParentType, 'body' | 'author'>''
   \<and> translateParentType exFederation exResolveReferenceRequires exUser ''ParentType'' =
     Inr ''(Pick<ParentType, 'id'> | Pick<ParentType, 'email'>) & Pick<ParentType, 'name' | 'email'>''
   \<and> requiresItems exResolveReferenceRequires exUser =
     Inr [\<lparr>item_name = ''name'', item_required = False\<rparr>,
          \<lparr>item_name = ''email'', item_required = True\<rparr>]
   \<and> mapE primaryKeyItems (annotationsNamed
         \<lparr>node_name = ''User'', node_directives = Some [keyDirective ''id'', keyDirective ''email'']\<rparr> ''key'') =
     Inr [[\<lparr>item_name = ''id'', item_required = True\<rparr>],
          [\<lparr>item_name = ''email'', item_required = True\<rparr>]]"
proof -
  have en: "fed_enabled exFederation" by code_simp
  have nm: "node_name exResolveReference = ''__resolveReference''"
    "node_name exResolveReferenceRequires = ''__resolveReference''"
    "node_name exResolveReferenceNoted = ''__resolveReference''" by code_simp+
  have p: "isObjectType exProduct"
    "astNode exProduct = Some \<lparr>node_name = ''Product'', node_directives = Some [keyDirective ''id'']\<rparr>"
    "type_name exProduct \<notin> {''Query'', ''Mutation'', ''Subscription''}"
    "take 2 (type_name exProduct) \<noteq> ''__''"
    "map fieldsArgument (annotationsNamed
        \<lparr>node_name = ''Product'', node_directives = Some [keyDirective ''id'']\<rparr> ''key'') = map Some [''id'']"
    "[''id''] \<noteq> []"
    "map fieldsArgument (annotationsNamed exResolveReference ''requires'') = map Some []"
    "\<forall>v \<in> set ([''id''] @ []). noBrace v"
    "\<forall>n \<in> set (concat (map fieldSetNames [])). getField exProduct n \<noteq> None"
    by (simp_all add: exProduct_def exResolveReference_def annotationsNamed_def fieldsArgument_def
        keyDirective_def noBrace_def)
  have r: "isObjectType exReview"
    "astNode exReview = Some \<lparr>node_name = ''Review'',
            node_directives = Some [\<lparr>directive_name = ''note'', directive_arguments = [(''fields'', ''body'')]\<rparr>,
                                    keyDirective ''id'']\<rparr>"
    "type_name exReview \<notin> {''Query'', ''Mutation'', ''Subscription''}"
    "take 2 (type_name exReview) \<noteq> ''__''"
    "map fieldsArgument (annotationsNamed \<lparr>node_name = ''Review'',
            node_directives = Some [\<lparr>directive_name = ''note'', directive_arguments = [(''fields'', ''body'')]\<rparr>,
                                    keyDirective ''id'']\<rparr> ''key'') = map Some [''id'']"
    "[''id''] \<noteq> []"
    "map fieldsArgument (annotationsNamed exResolveReferenceNoted ''requires'') = map Some [''body author  body'']"
    "\<forall>v \<in> set ([''id''] @ [''body author  body'']). noBrace v"
    by (simp_all add: exReview_def exResolveReferenceNoted_def annotationsNamed_def fieldsArgument_def
        keyDirective_def noBrace_def)
  have rn: "fieldSetNames ''body author  body'' = [''body'', ''author'']" "fieldSetNames ''id'' = [''id'']"
    "fieldSetNames ''email'' = [''email'']" "fieldSetNames ''name email'' = [''name'', ''email'']"
    by code_simp+
  have rk: "\<forall>n \<in> set (concat (map fieldSetNames [''body author  body''])). getField exReview n \<noteq> None"
    by (simp add: rn exReview_def getField_def)
  have u: "isObjectType exUser"
    "astNode exUser = Some \<lparr>node_name = ''User'', node_directives = Some [keyDirective ''id'', keyDirective ''email'']\<rparr>"
    "type_name exUser \<notin> {''Query'', ''Mutation'', ''Subscription''}"
    "take 2 (type_name exUser) \<noteq> ''__''"
    "map fieldsArgument (annotationsNamed
        \<lparr>node_name = ''User'', node_directives = Some [keyDirective ''id'', keyDirective ''email'']\<rparr> ''key'')
       = map Some [''id'', ''email'']"
    "[''id'', ''email''] \<noteq> []"
    "map fieldsArgument (annotationsNamed exResolveReferenceRequires ''requires'') = map Some [''name email'']"
    "\<forall>v \<in> set ([''id'', ''email''] @ [''name email'']). noBrace v"
    by (simp_all add: exUser_def exResolveReferenceRequires_def annotationsNamed_def fieldsArgument_def
        keyDirective_def noBrace_def)
  have uk: "\<forall>n \<in> set (concat (map fieldSetNames [''name email''])). getField exUser n \<noteq> None"
    by (simp add: rn exUser_def getField_def)
  have g: "getField exUser ''name'' = Some \<lparr>field_name = ''name'', field_type = NamedType ''String'', field_astNode = None\<rparr>"
    "getField exUser ''email'' = Some \<lparr>field_name = ''email'', field_type = NonNullType (NamedType ''String''), field_astNode = None\<rparr>"
    by (simp_all add: exUser_def getField_def)
  show ?thesis
    using translateParentType_keys[OF en p(1-4) nm(1) p(5-9), of "''ParentType''"]
      translateParentType_keys[OF en r(1-4) nm(3) r(5-8) rk, of "''ParentType''"]
      translateParentType_keys[OF en u(1-4) nm(2) u(5-8) uk, of "''ParentType''"]
    by (simp add: rn pickOf_def g)
qed

subsection \<open>Federation switched off\<close>

text \<open>
  Claim C10. A federation component constructed with \<^verbatim>\<open>enabled = false\<close> does nothing:
  \<^verbatim>\<open>skipField\<close>, \<^verbatim>\<open>skipDirective\<close> and \<^verbatim>\<open>skipScalar\<close> answer false, \<^verbatim>\<open>filterTypeNames\<close> and
  \<^verbatim>\<open>filterFieldNames\<close> return their argument, and \<^verbatim>\<open>translateParentType\<close> returns the given
  signature, for every input.
\<close>

theorem federation_disabled_noop:
  assumes "ApolloFederation False s = Inr fed"
  shows "skipField fed fieldNode parentType = Inr False
       \<and> \<not> skipDirective fed name
       \<and> \<not> skipScalar fed name
       \<and> filterTypeNames fed typeNames = typeNames
       \<and> filterFieldNames fed fieldNames = fieldNames
       \<and> translateParentType fed fieldNode parentType parentTypeSignature = Inr parentTypeSignature"
proof -
  have "\<not> fed_enabled fed"
    using assms by (auto simp: ApolloFederation_def split: sum.splits)
  then show ?thesis
    by (simp add: skipField_def skipDirective_def skipScalar_def filterTypeNames_def
        filterFieldNames_def translateParentType_def)
qed

theorem federation_disabled_noop_witness:
  "ApolloFederation False [exUser, exProduct] =
     Inr \<lparr>fed_enabled = False, fed_schema = [exUser, exProduct], fed_providesMap = [(''ID'', []), (''String'', [])]\<rparr>
   \<and> skipField \<lparr>fed_enabled = False, fed_schema = [exUser, exProduct], fed_providesMap = [(''ID'', []), (''String'', [])]\<rparr>
        exResolveReference exUser = Inr False
   \<and> \<not> skipDirective \<lparr>fed_enabled = False, fed_schema = [exUser, exProduct], fed_providesMap = [(''ID'', []), (''String'', [])]\<rparr> ''key''
   \<and> \<not> skipScalar \<lparr>fed_enabled = False, fed_schema = [exUser, exProduct], fed_providesMap = [(''ID'', []), (''String'', [])]\<rparr> ''_FieldSet''
   \<and> filterTypeNames \<lparr>fed_enabled = False, fed_schema = [exUser, exProduct], fed_providesMap = [(''ID'', []), (''String'', [])]\<rparr>
        [''User'', ''_FieldSet''] = [''User'', ''_FieldSet'']
   \<and> filterFieldNames \<lparr>fed_enabled = False, fed_schema = [exUser, exProduct], fed_providesMap = [(''ID'', []), (''String'', [])]\<rparr>
        [''__resolveReference'', ''id''] = [''__resolveReference'', ''id'']
   \<and> translateParentType \<lparr>fed_enabled = False, fed_schema = [exUser, exProduct], fed_providesMap = [(''ID'', []), (''String'', [])]\<rparr>
        exResolveReference exUser ''ParentType'' = Inr ''ParentType''"
proof -
  have c: "ApolloFederation False [exUser, exProduct] =
     Inr \<lparr>fed_enabled = False, fed_schema = [exUser, exProduct], fed_providesMap = [(''ID'', []), (''String'', [])]\<rparr>"
    by (simp add: ApolloFederation_def createMapOfProvides_def exUser_def exProduct_def
        deduplicate_firsts getType_def getDirectivesByName_def pushProvides_def)
  show ?thesis
    using federation_disabled_noop[OF c, of exResolveReference exUser "''key''" "[''User'', ''_FieldSet'']"
        "[''__resolveReference'', ''id'']" "''ParentType''"]
      federation_disabled_noop[OF c, of exResolveReference exUser "''_FieldSet''" "[''User'', ''_FieldSet'']"
        "[''__resolveReference'', ''id'']" "''ParentType''"] c
    by simp
qed


section \<open>Properties of the selection-set transformation\<close>

subsection \<open>Fragment spreads\<close>

lemma map_of_map_upd:
  "map_of (map (\<lambda>(k, v). if k = t then (k, f v) else (k, v)) m) k' =
     map_option (\<lambda>v. if k' = t then f v else v) (map_of m k')"
  by (induction m) auto

lemma usagesAt_pushUsage:
  "usagesAt (pushUsage m t u) k = usagesAt m k @ (if k = t then [u] else [])"
  by (auto simp: usagesAt_def pushUsage_def Let_def map_of_map_upd split: option.splits)

lemma usagesOfSpread_at:
  "length pts \<le> n \<Longrightarrow> k \<noteq> [] \<Longrightarrow>
   usagesAt (usagesOfSpread this sn n pts m) k =
     usagesAt m k @ map (\<lambda>T. usageToken this sn n (type_name T)) (filter (\<lambda>T. type_name T = k) pts)"
proof (induction pts arbitrary: m)
  case Nil
  then show ?case by simp
next
  case (Cons T pts)
  have n1: "n \<ge> 1" using Cons.prems(1) by simp
  have tok: "type_name T = k \<Longrightarrow>
      buildFragmentTypeName this sn (fragmentSuffixOf this sn) (if n = 1 then None else Some (type_name T))
        = usageToken this sn n k"
    using n1 Cons.prems(2) by (auto simp: buildFragmentTypeName_def usageToken_def)
  show ?case
    using Cons.IH[of "pushUsage m (type_name T)
        (buildFragmentTypeName this sn (fragmentSuffixOf this sn) (if n = 1 then None else Some (type_name T)))"]
      Cons.prems tok
    by (auto simp: Let_def usagesAt_pushUsage fragmentSuffixOf_def)
qed

lemma spreadsUsageLoop_at:
  "spreadsUsageLoop this spreads m0 = Inr m \<Longrightarrow> k \<noteq> [] \<Longrightarrow>
   usagesAt m k = usagesAt m0 k @ concat (map (spreadTokens this k) spreads)"
proof (induction this spreads m0 rule: spreadsUsageLoop.induct)
  case (1 this m)
  then show ?case by simp
next
  case (2 this spreadName rest m0)
  show ?case
  proof (cases "find (\<lambda>lf. fragment_name lf = spreadName) (sso_loadedFragments this)")
    case None
    then show ?thesis using 2 by (simp add: spreadTokens_def)
  next
    case (Some fr)
    note F = Some
    show ?thesis
    proof (cases "getType (sso_schema this) (fragment_onType fr)")
      case None
      then show ?thesis using 2(3) F by simp
    next
      case (Some ty)
      note T = Some
      have "spreadsUsageLoop this rest
              (usagesOfSpread this spreadName (length (getPossibleTypes (sso_schema this) ty))
                 (getPossibleTypes (sso_schema this) ty) m0) = Inr m"
        using 2(3) F T by (simp add: Let_def)
      from 2(2)[OF F T refl this 2(4)] show ?thesis
        using F T 2(4) by (simp add: usagesOfSpread_at spreadTokens_def Let_def)
    qed
  qed
next
  case (3 this a n sel rest m)
  then show ?case by (simp add: spreadTokens_def)
next
  case (4 this c sels rest m)
  then show ?case by (simp add: spreadTokens_def)
qed

lemma spreadsUsageLoop_skip:
  "find (\<lambda>lf. fragment_name lf = n) (sso_loadedFragments this) = None \<Longrightarrow>
   spreadsUsageLoop this (pre @ FragmentSpreadNode n # post) m = spreadsUsageLoop this (pre @ post) m"
proof (induction this pre m rule: spreadsUsageLoop.induct)
  case (1 this m)
  then show ?case by simp
next
  case (2 this spreadName rest m)
  then show ?case by (auto split: option.splits simp: Let_def)
next
  case (3 this a n sel rest m)
  then show ?case by simp
next
  case (4 this c sels rest m)
  then show ?case by simp
qed

text \<open>
  Claim C9. For a type name \<open>k\<close> (not empty, as every name of a schema), the usage tokens that
  \<^verbatim>\<open>buildFragmentSpreadsUsage\<close> files under \<open>k\<close> are, spread by spread, one token for every
  possible type named \<open>k\<close> of the fragment's type condition: the generated name of the
  fragment with the suffix \<^verbatim>\<open>_k_\<close> before the fragment suffix when the type condition has
  more than one possible type, and without it when it has exactly one. A spread whose name
  is not in the library contributes nothing and changes nothing: the result, error or not,
  is the result without that spread.
\<close>

theorem fragment_spread_usage:
  "(buildFragmentSpreadsUsage this spreads = Inr m \<and> k \<noteq> [] \<longrightarrow>
      usagesAt m k = concat (map (spreadTokens this k) spreads))
   \<and> (find (\<lambda>lf. fragment_name lf = n) (sso_loadedFragments this) = None \<longrightarrow>
      buildFragmentSpreadsUsage this (pre @ FragmentSpreadNode n # post) =
      buildFragmentSpreadsUsage this (pre @ post))"
  using spreadsUsageLoop_at[of this spreads "[]" m k] spreadsUsageLoop_skip[of n this pre post "[]"]
  by (auto simp: buildFragmentSpreadsUsage_def usagesAt_def)

theorem fragment_spread_usage_witness:
  "buildFragmentSpreadsUsage exThis
      [FragmentSpreadNode ''F'', FragmentSpreadNode ''G'', FragmentSpreadNode ''DogParts'']
     = Inr [(''Dog'', [''F_Dog_Fragment'', ''DogPartsFragment'']), (''Cat'', [''F_Cat_Fragment''])]
   \<and> usagesAt [(''Dog'', [''F_Dog_Fragment'', ''DogPartsFragment'']), (''Cat'', [''F_Cat_Fragment''])]
        ''Dog'' = [''F_Dog_Fragment'', ''DogPartsFragment'']
   \<and> buildFragmentSpreadsUsage exThis
        ([FragmentSpreadNode ''F''] @ FragmentSpreadNode ''G'' # [FragmentSpreadNode ''DogParts''])
     = buildFragmentSpreadsUsage exThis
        ([FragmentSpreadNode ''F''] @ [FragmentSpreadNode ''DogParts''])"
proof -
  have b: "buildFragmentSpreadsUsage exThis
      [FragmentSpreadNode ''F'', FragmentSpreadNode ''G'', FragmentSpreadNode ''DogParts'']
     = Inr [(''Dog'', [''F_Dog_Fragment'', ''DogPartsFragment'']), (''Cat'', [''F_Cat_Fragment''])]"
    by code_simp
  have t: "concat (map (spreadTokens exThis ''Dog'')
      [FragmentSpreadNode ''F'', FragmentSpreadNode ''G'', FragmentSpreadNode ''DogParts''])
     = [''F_Dog_Fragment'', ''DogPartsFragment'']"
    by code_simp
  have u: "find (\<lambda>lf. fragment_name lf = ''G'') (sso_loadedFragments exThis) = None"
    by code_simp
  show ?thesis
    using fragment_spread_usage[of exThis
        "[FragmentSpreadNode ''F'', FragmentSpreadNode ''G'', FragmentSpreadNode ''DogParts'']"
        "[(''Dog'', [''F_Dog_Fragment'', ''DogPartsFragment'']), (''Cat'', [''F_Cat_Fragment''])]"
        "''Dog''" "''G''" "[FragmentSpreadNode ''F'']" "[FragmentSpreadNode ''DogParts'']"]
      b t u
    by simp
qed

subsection \<open>Inline fragments on an object parent\<close>

text \<open>
  Claim C1 says that on an object parent an inline fragment whose type condition is an
  interface the object type implements has its fields attached to the object type. The
  source decides with \<^verbatim>\<open>parentType.isTypeOf(typeOnSchema, null, null)\<close>. For the schema built
  from SDL, where \<^verbatim>\<open>Dog\<close> implements \<^verbatim>\<open>Node\<close> and has no \<^verbatim>\<open>isTypeOf\<close>, the selection
  \<^verbatim>\<open>{ ... on Node { id } }\<close> on \<^verbatim>\<open>Dog\<close> raises a TypeError and attaches nothing.
\<close>

theorem interface_condition_on_object_parent_raises:
  "isObjectType exDog \<and> ''Node'' \<in> set (getInterfaces exDog)
   \<and> map_option isInterfaceType (getType exSchema ''Node'') = Some True
   \<and> flattenSelectionSet exThis exDog
         [InlineFragmentNode (Some ''Node'') [FieldNode None ''id'' None]] = Inl RuntimeTypeError"
  by code_simp

subsection \<open>The discriminant field\<close>

text \<open>
  Claim C5. The \<^verbatim>\<open>__typename\<close> field as a function of the three flags (non-optional,
  always-add, queried): omitted when all three are false; present and not optional when it
  was queried; present and not optional when the non-optional flag is set, queried or not;
  present and optional (the name ends in a question mark) when only the always-add flag is
  set.
\<close>

theorem typename_field_policy:
  "buildTypeNameField this ty False False False = None
   \<and> buildTypeNameField this ty nonOpt addT True =
       Some \<lparr>nt_name = formatNamedField (sso_processor this) ''__typename'',
             nt_type = [CHR 0x27] @ type_name ty @ [CHR 0x27]\<rparr>
   \<and> buildTypeNameField this ty True addT queried =
       Some \<lparr>nt_name = formatNamedField (sso_processor this) ''__typename'',
             nt_type = [CHR 0x27] @ type_name ty @ [CHR 0x27]\<rparr>
   \<and> buildTypeNameField this ty False True False =
       Some \<lparr>nt_name = formatNamedField (sso_processor this) ''__typename'' @ ''?'',
             nt_type = [CHR 0x27] @ type_name ty @ [CHR 0x27]\<rparr>"
  by (simp add: buildTypeNameField_def)

subsection \<open>Classification\<close>

lemma map_of_mapSet: "map_of (mapSet m k v) = (map_of m)(k \<mapsto> v)"
  by (induction m) (auto simp: fun_eq_iff)

lemma keys_mapSet:
  "map fst (mapSet m k v) = (if k \<in> set (map fst m) then map fst m else map fst m @ [k])"
  by (induction m) (force+)

lemma distinct_mapSet: "distinct (map fst m) \<Longrightarrow> distinct (map fst (mapSet m k v))"
  by (simp add: keys_mapSet)

lemma set_mapSet: "set (mapSet m k v) \<subseteq> insert (k, v) (set m)"
  by (induction m) (auto split: if_splits)

lemma selectedFieldType_None_iff:
  "selectedFieldType parent name = None \<longleftrightarrow>
     \<not> isMetadataFieldName name \<and> getField parent name = None"
  by (auto simp: selectedFieldType_def isMetadataFieldName_def metadataFieldMap_def)

lemma classify_snoc:
  "classify parent st (items @ [x]) =
     (case classify parent st items of Inl e \<Rightarrow> Inl e | Inr st' \<Rightarrow> classifyNode parent st' x)"
  by (induction items arbitrary: st) (auto split: sum.splits)

lemma isLinkFor_cases:
  "isLinkFor k x \<Longrightarrow> \<exists>al name ss. x = Node (FieldNode al name (Some ss))
      \<and> getFieldNodeNameValue (FieldNode al name (Some ss)) = k"
  by (cases "(k, x)" rule: isLinkFor.cases) auto

lemma classifyNode_link_typed:
  "classifyNode parent st (Node (FieldNode al name (Some ss))) = Inr st' \<Longrightarrow>
   selectedFieldType parent name \<noteq> None"
  by (auto simp: classifyNode_def split: option.splits)

lemma classify_links_typed:
  "classify parent st items = Inr st' \<Longrightarrow> Node (FieldNode al name (Some ss)) \<in> set items \<Longrightarrow>
   selectedFieldType parent name \<noteq> None"
proof (induction items arbitrary: st)
  case Nil
  then show ?case by simp
next
  case (Cons x items)
  from Cons.prems(1) obtain st1 where s: "classifyNode parent st x = Inr st1"
    "classify parent st1 items = Inr st'"
    by (auto split: sum.splits)
  show ?case
  proof (cases "x = Node (FieldNode al name (Some ss))")
    case True
    then show ?thesis using s(1) classifyNode_link_typed by blast
  next
    case False
    then show ?thesis using Cons.IH[OF s(2)] Cons.prems(2) by simp
  qed
qed

lemma mergedLink_Nil [simp]: "mergedLink parent [] = None"
  by (simp add: mergedLink_def)

lemma mergedLink_None_iff:
  assumes "\<forall>x \<in> set occ. \<exists>al name ss. x = Node (FieldNode al name (Some ss))
              \<and> selectedFieldType parent name \<noteq> None"
  shows "mergedLink parent occ = None \<longleftrightarrow> occ = []"
  using assms by (cases occ) (auto simp: mergedLink_def split: option.splits)

lemma classifyNode_other_links:
  "classifyNode parent st x = Inr st' \<Longrightarrow> \<not> isLinkFor k x \<Longrightarrow>
   map_of (linkFieldSelectionSets st') k = map_of (linkFieldSelectionSets st) k"
  by (cases "(k, x)" rule: isLinkFor.cases)
     (auto simp: classifyNode_def Let_def map_of_mapSet
           split: option.splits item.splits selection_node.splits prod.splits if_splits)

lemma classifyNode_distinct:
  "classifyNode parent st x = Inr st' \<Longrightarrow> distinct (map fst (linkFieldSelectionSets st)) \<Longrightarrow>
   distinct (map fst (linkFieldSelectionSets st'))"
  by (auto simp: classifyNode_def Let_def distinct_mapSet
           split: option.splits item.splits selection_node.splits prod.splits if_splits)

lemma classifyNode_first:
  assumes "classifyNode parent st (Node (FieldNode al name (Some ss))) = Inr st'"
    and "map_of (linkFieldSelectionSets st) (getFieldNodeNameValue (FieldNode al name (Some ss))) = None"
  shows "map_of (linkFieldSelectionSets st') (getFieldNodeNameValue (FieldNode al name (Some ss)))
         = mergedLink parent [Node (FieldNode al name (Some ss))]"
  using assms
  by (auto simp: classifyNode_def Let_def map_of_mapSet mergedLink_def split: option.splits)

lemma classifyNode_merge:
  assumes "classifyNode parent st (Node (FieldNode al name (Some ss))) = Inr st'"
    and "map_of (linkFieldSelectionSets st) (getFieldNodeNameValue (FieldNode al name (Some ss)))
         = Some (ty1, FieldNode al1 name1 (Some ss1))"
  shows "map_of (linkFieldSelectionSets st') (getFieldNodeNameValue (FieldNode al name (Some ss)))
         = Some (ty1, FieldNode al1 name1 (Some (mergeSelectionSets ss1 ss)))"
  using assms
  by (auto simp: classifyNode_def Let_def map_of_mapSet split: option.splits)

lemma mergedLink_snoc:
  "mergedLink parent occ = Some (ty1, FieldNode al1 name1 (Some ss1)) \<Longrightarrow>
   mergedLink parent (occ @ [Node (FieldNode al name (Some ss))])
     = Some (ty1, FieldNode al1 name1 (Some (mergeSelectionSets ss1 ss)))"
  by (cases occ)
     (auto simp: mergedLink_def split: option.splits item.splits selection_node.splits list.splits)

lemma mergedLink_shape:
  "mergedLink parent occ = Some (ty, f) \<Longrightarrow> \<exists>al n ss. f = FieldNode al n (Some ss)"
  by (auto simp: mergedLink_def split: option.splits item.splits selection_node.splits list.splits)

lemma classify_links:
  "classify parent emptyClassification items = Inr st \<Longrightarrow>
   distinct (map fst (linkFieldSelectionSets st))
   \<and> (\<forall>k. map_of (linkFieldSelectionSets st) k = mergedLink parent (linkOccurrences k items))"
proof (induction items arbitrary: st rule: rev_induct)
  case Nil
  then show ?case by (auto simp: emptyClassification_def linkOccurrences_def)
next
  case (snoc x items)
  from snoc.prems obtain st0 where s0: "classify parent emptyClassification items = Inr st0"
    and sx: "classifyNode parent st0 x = Inr st"
    by (auto simp: classify_snoc split: sum.splits)
  note IH = snoc.IH[OF s0]
  have d: "distinct (map fst (linkFieldSelectionSets st))"
    using classifyNode_distinct[OF sx] IH by simp
  have "map_of (linkFieldSelectionSets st) k = mergedLink parent (linkOccurrences k (items @ [x]))" for k
  proof (cases "isLinkFor k x")
    case False
    then show ?thesis using classifyNode_other_links[OF sx False] IH
      by (simp add: linkOccurrences_def)
  next
    case True
    then obtain al name ss where x: "x = Node (FieldNode al name (Some ss))"
      and k: "getFieldNodeNameValue (FieldNode al name (Some ss)) = k"
      using isLinkFor_cases by blast
    have occ: "linkOccurrences k (items @ [x]) = linkOccurrences k items @ [x]"
      using True by (simp add: linkOccurrences_def)
    show ?thesis
    proof (cases "map_of (linkFieldSelectionSets st0) k")
      case None
      have "\<forall>y \<in> set (linkOccurrences k items). \<exists>al name ss. y = Node (FieldNode al name (Some ss))
              \<and> selectedFieldType parent name \<noteq> None"
      proof
        fix y assume y: "y \<in> set (linkOccurrences k items)"
        then have "isLinkFor k y" "y \<in> set items" by (auto simp: linkOccurrences_def)
        then obtain al' name' ss' where y': "y = Node (FieldNode al' name' (Some ss'))"
          using isLinkFor_cases by blast
        have "selectedFieldType parent name' \<noteq> None"
          using classify_links_typed[OF s0, of al' name' ss'] \<open>y \<in> set items\<close> y' by simp
        then show "\<exists>al name ss. y = Node (FieldNode al name (Some ss))
              \<and> selectedFieldType parent name \<noteq> None" using y' by simp
      qed
      from mergedLink_None_iff[OF this] None IH have e: "linkOccurrences k items = []" by simp
      show ?thesis using classifyNode_first[OF sx[unfolded x]] None occ e
        unfolding k x by (simp del: getFieldNodeNameValue.simps)
    next
      case (Some e)
      obtain ty1 f where e: "e = (ty1, f)" by (cases e)
      from Some IH e have m: "mergedLink parent (linkOccurrences k items) = Some (ty1, f)" by simp
      from mergedLink_shape[OF m] obtain al1 n1 ss1 where f: "f = FieldNode al1 n1 (Some ss1)"
        by blast
      show ?thesis
        using classifyNode_merge[OF sx[unfolded x], of ty1 al1 n1 ss1] Some e f occ
          mergedLink_snoc[OF m[unfolded f], of al name ss]
        unfolding k x by (simp del: getFieldNodeNameValue.simps)
    qed
  qed
  with d show ?case by blast
qed

lemma classifyNode_known:
  assumes "wfLinks st" "\<not> unknownLink parent x"
  shows "\<exists>st'. classifyNode parent st x = Inr st' \<and> wfLinks st'"
proof (cases x)
  case (Usage u)
  then show ?thesis using assms by (simp add: classifyNode_def wfLinks_def)
next
  case (Node n)
  show ?thesis
  proof (cases n)
    case (FieldNode al name sel)
    show ?thesis
    proof (cases sel)
      case None
      then show ?thesis using assms Node FieldNode
        by (auto simp: classifyNode_def wfLinks_def split: option.splits)
    next
      case (Some ss)
      note S = Some
      from assms(2) Node FieldNode Some
      obtain ty where ty: "selectedFieldType parent name = Some ty"
        using selectedFieldType_None_iff[of parent name] by (auto simp: unknownLink_def)
      let ?k = "getFieldNodeNameValue (FieldNode al name (Some ss))"
      show ?thesis
      proof (cases "map_of (linkFieldSelectionSets st) ?k")
        case None
        then show ?thesis using assms(1) Node FieldNode S ty set_mapSet
          by (fastforce simp: classifyNode_def wfLinks_def Let_def list_all_iff)
      next
        case (Some e)
        note E = Some
        obtain ty1 f where e: "e = (ty1, f)" by (cases e)
        from map_of_SomeD[OF E] assms(1) e
        obtain al1 n1 ss1 where f: "f = FieldNode al1 n1 (Some ss1)"
          by (auto simp: wfLinks_def list_all_iff split: selection_node.splits option.splits)
        show ?thesis using assms(1) Node FieldNode \<open>sel = Some ss\<close> ty E e f set_mapSet
          by (fastforce simp: classifyNode_def wfLinks_def Let_def list_all_iff)
      qed
    qed
  next
    case (InlineFragmentNode c s)
    then show ?thesis using assms Node by (simp add: classifyNode_def)
  next
    case (FragmentSpreadNode s)
    then show ?thesis using assms Node by (simp add: classifyNode_def)
  qed
qed


lemma wfLinks_empty: "wfLinks emptyClassification"
  by (simp add: wfLinks_def emptyClassification_def)

lemma classify_unknown_link:
  "wfLinks st \<Longrightarrow> find (unknownLink parent) items = Some (Node (FieldNode al name sel)) \<Longrightarrow>
   classify parent st items =
     Inl (TypeError (''Could not find field type. '' @ type_name parent @ ''.'' @ name))"
proof (induction items arbitrary: st)
  case Nil
  then show ?case by simp
next
  case (Cons x items)
  show ?case
  proof (cases "unknownLink parent x")
    case True
    then have x: "x = Node (FieldNode al name sel)" using Cons.prems(2) by simp
    from True x obtain ss where sel: "sel = Some ss"
      by (cases sel) (auto simp: unknownLink_def)
    have "selectedFieldType parent name = None"
      using True x sel by (simp add: selectedFieldType_None_iff unknownLink_def)
    then show ?thesis using x sel by (simp add: classifyNode_def)
  next
    case False
    from classifyNode_known[OF Cons.prems(1) False] obtain st' where
      s: "classifyNode parent st x = Inr st'" "wfLinks st'" by blast
    have "find (unknownLink parent) items = Some (Node (FieldNode al name sel))"
      using Cons.prems(2) False by simp
    from Cons.IH[OF s(2) this] show ?thesis using s(1) by simp
  qed
qed

text \<open>
  Claim C3. After the classification of one concrete type's item list, the buffer of link
  fields has at most one entry for a response key, and the entry of a key is the first
  field of the list with that key, its selection set being the result of merging the child
  selection sets of all later fields with that key into it, in order. No occurrence is
  dropped and the first is never replaced.
\<close>

theorem link_fields_merged:
  assumes "classify parent emptyClassification items = Inr st"
  shows "distinct (map fst (linkFieldSelectionSets st))
       \<and> (\<forall>k. map_of (linkFieldSelectionSets st) k = mergedLink parent (linkOccurrences k items))"
  using classify_links[OF assms] .

theorem link_fields_merged_witness:
  "classify exDog emptyClassification exDogItems =
     Inr \<lparr>primitiveFields = [(''bark'', FieldNode None ''bark'' None)],
          primitiveAliasFields = [],
          linkFieldSelectionSets =
            [(''friend'', NamedType ''Node'',
              FieldNode None ''friend'' (Some [FieldNode None ''id'' None, FragmentSpreadNode ''F''])),
             (''pal'', NamedType ''Node'',
              FieldNode (Some ''pal'') ''friend'' (Some [FieldNode None ''id'' None]))],
          requireTypename = False, fragmentsSpreadUsages = []\<rparr>
   \<and> map_of [(''friend'', NamedType ''Node'',
              FieldNode None ''friend'' (Some [FieldNode None ''id'' None, FragmentSpreadNode ''F''])),
             (''pal'', NamedType ''Node'',
              FieldNode (Some ''pal'') ''friend'' (Some [FieldNode None ''id'' None]))] ''friend''
       = mergedLink exDog
           [Node (FieldNode None ''friend'' (Some [FieldNode None ''id'' None])),
            Node (FieldNode None ''friend'' (Some [FieldNode None ''id'' None, FragmentSpreadNode ''F'']))]"
proof -
  have c: "classify exDog emptyClassification exDogItems =
     Inr \<lparr>primitiveFields = [(''bark'', FieldNode None ''bark'' None)],
          primitiveAliasFields = [],
          linkFieldSelectionSets =
            [(''friend'', NamedType ''Node'',
              FieldNode None ''friend'' (Some [FieldNode None ''id'' None, FragmentSpreadNode ''F''])),
             (''pal'', NamedType ''Node'',
              FieldNode (Some ''pal'') ''friend'' (Some [FieldNode None ''id'' None]))],
          requireTypename = False, fragmentsSpreadUsages = []\<rparr>"
    by code_simp
  have o: "linkOccurrences ''friend'' exDogItems =
           [Node (FieldNode None ''friend'' (Some [FieldNode None ''id'' None])),
            Node (FieldNode None ''friend'' (Some [FieldNode None ''id'' None, FragmentSpreadNode ''F'']))]"
    by code_simp
  from link_fields_merged[OF c] have
    "map_of (linkFieldSelectionSets \<lparr>primitiveFields = [(''bark'', FieldNode None ''bark'' None)],
          primitiveAliasFields = [],
          linkFieldSelectionSets =
            [(''friend'', NamedType ''Node'',
              FieldNode None ''friend'' (Some [FieldNode None ''id'' None, FragmentSpreadNode ''F''])),
             (''pal'', NamedType ''Node'',
              FieldNode (Some ''pal'') ''friend'' (Some [FieldNode None ''id'' None]))],
          requireTypename = False, fragmentsSpreadUsages = []\<rparr>) ''friend''
     = mergedLink exDog (linkOccurrences ''friend'' exDogItems)"
    by blast
  then show ?thesis using c unfolding o by simp
qed

text \<open>
  A field without a selection set is put into the buffer of primitive fields under its name
  and handed to the processor; its name is not looked up in the schema. With the example
  processor, a field that \<^verbatim>\<open>Dog\<close> does not have goes through without an error.
\<close>

theorem unknown_leaf_field_passes:
  "getField exDog ''nonexistent'' = None \<and> \<not> isMetadataFieldName ''nonexistent''
   \<and> buildSelectionSetString exThis (transformSelectionSet 0 exThis) exDog
        [Node (FieldNode None ''nonexistent'' None)] = Inr (Some ''Pick<Dog, 'nonexistent'>'')
   \<and> transformSelectionSet 1 exThis exDog (Some [FieldNode None ''nonexistent'' None]) =
        Inr ''Pick<Dog, 'nonexistent'>''"
  by code_simp

text \<open>
  Claim C8, as amended. If some field with a nested selection set names neither a field of
  the concrete type nor a meta field, the transformation of that type's selection fails
  with the TypeError that names the type and the first such field, whatever the processor
  and the other items are. (A field without a selection set is not looked up: see
  \<open>unknown_leaf_field_passes\<close>.)
\<close>

theorem unknown_link_field_fails:
  assumes "find (unknownLink parent) items = Some (Node (FieldNode al name sel))"
  shows "buildSelectionSetString this next parent items =
           Inl (TypeError (''Could not find field type. '' @ type_name parent @ ''.'' @ name))"
  using classify_unknown_link[OF wfLinks_empty assms]
  by (simp add: buildSelectionSetString_def)

theorem unknown_link_field_fails_witness:
  "buildSelectionSetString exThis (transformSelectionSet 0 exThis) exDog
     [Node (FieldNode None ''bark'' None),
      Node (FieldNode None ''owner'' (Some [FieldNode None ''id'' None])),
      Node (FieldNode None ''ghost'' (Some []))]
   = Inl (TypeError ''Could not find field type. Dog.owner'')"
proof -
  have f: "find (unknownLink exDog)
     [Node (FieldNode None ''bark'' None),
      Node (FieldNode None ''owner'' (Some [FieldNode None ''id'' None])),
      Node (FieldNode None ''ghost'' (Some []))]
    = Some (Node (FieldNode None ''owner'' (Some [FieldNode None ''id'' None])))"
    by code_simp
  have n: "type_name exDog = ''Dog''" by code_simp
  show ?thesis
    using unknown_link_field_fails[OF f, of exThis "transformSelectionSet 0 exThis"] n by simp
qed

subsection \<open>Grouping and composition\<close>

lemma firsts_cong_set: "set s1 = set s2 \<Longrightarrow> firsts s1 ys = firsts s2 ys"
  by (induction ys arbitrary: s1 s2) auto

lemma keys_appendToTypeMap:
  "map fst (appendToTypeMap m k v) = (if k \<in> set (map fst m) then map fst m else map fst m @ [k])"
proof -
  have u: "map fst (map (\<lambda>(k', v'). if k' = k then (k', f v') else (k', v')) xs) = map fst xs" for f xs
    by (induction xs) auto
  show ?thesis
    by (auto simp: appendToTypeMap_def Let_def u map_of_eq_None_iff split: option.splits)
qed

lemma appendToTypeMap_fresh_None:
  "k \<notin> set (map fst m) \<Longrightarrow> appendToTypeMap m k None = m @ [(k, [])]"
  by (auto simp: appendToTypeMap_def map_of_eq_None_iff)

lemma appendToTypeMap_fresh_Some:
  "k \<notin> set (map fst m) \<Longrightarrow> appendToTypeMap (m @ [(k, [])]) k (Some [t]) = m @ [(k, [t])]"
proof -
  assume a: "k \<notin> set (map fst m)"
  then have "map (\<lambda>(k', v). if k' = k then (k', v @ [t]) else (k', v)) m = m"
    by (induction m) auto
  then show ?thesis using a by (auto simp: appendToTypeMap_def map_of_eq_None_iff)
qed

lemma groupedStep_keys:
  "groupedStep this next byType prev T = Inr prev' \<Longrightarrow>
   map fst prev' = (if type_name T \<in> set (map fst prev) then map fst prev
                    else map fst prev @ [type_name T])"
  by (auto simp: groupedStep_def Let_def keys_appendToTypeMap rev_image_eqI
           split: option.splits if_splits sum.splits)

lemma groupedReduce_keys:
  "groupedReduce this next byType prev pts = Inr g \<Longrightarrow>
   map fst g = map fst prev @ firsts (map fst prev) (map type_name pts)"
proof (induction pts arbitrary: prev)
  case Nil
  then show ?case by simp
next
  case (Cons T pts)
  from Cons.prems obtain prev' where s: "groupedStep this next byType prev T = Inr prev'"
    "groupedReduce this next byType prev' pts = Inr g"
    by (auto split: sum.splits)
  show ?case
  proof (cases "type_name T \<in> set (map fst prev)")
    case True
    then have "firsts (map fst prev @ [type_name T]) (map type_name pts)
             = firsts (map fst prev) (map type_name pts)"
      by (intro firsts_cong_set) auto
    then show ?thesis using Cons.IH[OF s(2)] groupedStep_keys[OF s(1)] True by simp
  next
    case False
    then show ?thesis using Cons.IH[OF s(2)] groupedStep_keys[OF s(1)] by simp
  qed
qed

lemma firsts_distinct_id: "distinct ys \<Longrightarrow> set ys \<inter> set seen = {} \<Longrightarrow> firsts seen ys = ys"
  by (induction ys arbitrary: seen) auto


text \<open>
  The flattened map is not exact. On the interface \<^verbatim>\<open>Node\<close>, the selection
  \<^verbatim>\<open>{ ... on Dog { bark } }\<close> leaves the possible type \<^verbatim>\<open>Cat\<close> without an entry; on the object
  type \<^verbatim>\<open>Dog\<close>, the spread of a fragment on \<^verbatim>\<open>Node\<close> makes an entry for \<^verbatim>\<open>Cat\<close>, which is no
  possible type of \<^verbatim>\<open>Dog\<close>. For an empty selection the grouped collection has no entry at all.
\<close>

theorem flattened_map_not_exact:
  "flattenSelectionSet exThis exNode
      [InlineFragmentNode (Some ''Dog'') [FieldNode None ''bark'' None]] =
     Inr [(''Dog'', [Node (FieldNode None ''bark'' None)])]
   \<and> map type_name (getPossibleTypes exSchema exNode) = [''Dog'', ''Cat'']
   \<and> ''Cat'' \<notin> set (map fst [(''Dog'', [Node (FieldNode None ''bark'' None)])])
   \<and> flattenSelectionSet exThis exDog [FragmentSpreadNode ''F''] =
     Inr [(''Dog'', [Usage ''F_Dog_Fragment'']), (''Cat'', [Usage ''F_Cat_Fragment''])]
   \<and> map type_name (getPossibleTypes exSchema exDog) = [''Dog'']
   \<and> buildGroupedSelections exThis (transformSelectionSet 0 exThis) exNode (Some []) = Inr []"
  by code_simp

text \<open>
  Claim C2, as amended. For a non-empty selection on which \<^verbatim>\<open>_buildGroupedSelections\<close>
  succeeds, the grouped collection has exactly one entry for every possible type of the
  parent and no other entry, in the order of the possible types. (The flattened map itself
  has entries only for the type names that some selection touched: see
  \<open>flattened_map_not_exact\<close>.)
\<close>

theorem grouped_covers_possible_types:
  assumes "buildGroupedSelections this next parent (Some selections) = Inr grouped"
    and "selections \<noteq> []"
  shows "distinct (map fst grouped)
       \<and> set (map fst grouped) = set (map type_name (getPossibleTypes (sso_schema this) parent))
       \<and> (distinct (map type_name (getPossibleTypes (sso_schema this) parent)) \<longrightarrow>
            map fst grouped = map type_name (getPossibleTypes (sso_schema this) parent))"
proof -
  from assms obtain byType where
    "groupedReduce this next byType [] (getPossibleTypes (sso_schema this) parent) = Inr grouped"
    by (auto simp: buildGroupedSelections_def split: sum.splits)
  from groupedReduce_keys[OF this]
  have k: "map fst grouped = firsts [] (map type_name (getPossibleTypes (sso_schema this) parent))"
    by simp
  show ?thesis
    unfolding k by (simp add: firsts_distinct firsts_set firsts_distinct_id)
qed

theorem grouped_covers_possible_types_witness:
  "buildGroupedSelections exThis (transformSelectionSet 0 exThis) exNode
      (Some [InlineFragmentNode (Some ''Dog'') [FieldNode None ''bark'' None]])
     = Inr [(''Dog'', [''Pick<Dog, 'bark'>'']), (''Cat'', [])]
   \<and> map type_name (getPossibleTypes (sso_schema exThis) exNode) = [''Dog'', ''Cat'']"
proof -
  have g: "buildGroupedSelections exThis (transformSelectionSet 0 exThis) exNode
      (Some [InlineFragmentNode (Some ''Dog'') [FieldNode None ''bark'' None]])
     = Inr [(''Dog'', [''Pick<Dog, 'bark'>'']), (''Cat'', [])]"
    by code_simp
  have d: "distinct (map type_name (getPossibleTypes (sso_schema exThis) exNode))"
    by code_simp
  show ?thesis
    using grouped_covers_possible_types[OF g] d g by simp
qed

text \<open>
  One step of the \<^verbatim>\<open>reduce\<close>. A composed fragment is never the empty string, so that the
  step pushes the fragment that \<^verbatim>\<open>buildSelectionSetString\<close> composes for the items the type
  has at that step, and pushes nothing when that is \<^verbatim>\<open>null\<close>.
\<close>

lemma composeFields_nonempty: "composeFields tr us = Some t \<Longrightarrow> t \<noteq> []"
proof -
  assume a: "composeFields tr us = Some t"
  let ?f = "filter (\<lambda>s. s \<noteq> [])
                   (textsOf tr @ (if length (objectsOf tr) > 0
             then [''{ '' @ js_join '', '' (objectsOf tr) @ '' }''] else []) @ us)"
  show ?thesis
  proof (cases ?f)
    case Nil
    then show ?thesis using a by (simp add: composeFields_def Let_def)
  next
    case (Cons x xs)
    then have "x \<in> set ?f" by simp
    then have "x \<noteq> []" by (simp del: filter_append)
    then show ?thesis using a Cons by (cases xs) (auto simp: composeFields_def Let_def)
  qed
qed

lemma buildSelectionSetString_nonempty:
  "buildSelectionSetString this next schemaType items = Inr (Some t) \<Longrightarrow> t \<noteq> []"
  by (auto simp: buildSelectionSetString_def Let_def composeFields_nonempty split: sum.splits)

lemma groupedStep_pushes:
  assumes "getType (sso_schema this) (type_name T) = Some schemaType" "isObjectType schemaType"
    and "buildSelectionSetString this next schemaType (usagesAt byType (type_name T)) = Inr r"
    and "type_name T \<notin> set (map fst prev)"
  shows "groupedStep this next byType prev T =
           Inr (prev @ [(type_name T, case r of None \<Rightarrow> [] | Some t \<Rightarrow> [t])])"
proof -
  have ne: "r = Some t \<Longrightarrow> t \<noteq> []" for t
    using buildSelectionSetString_nonempty assms(3) by blast
  show ?thesis
    using assms ne
    by (auto simp: groupedStep_def usagesAt_def Let_def appendToTypeMap_fresh_None
        appendToTypeMap_fresh_Some split: option.splits if_splits)
qed

text \<open>
  So every step pushes at most one fragment, and never an empty one, for its type, whatever
  the items of the type are: when the possible types have distinct names, an entry of the
  grouped collection holds at most one fragment.
\<close>

lemma groupedStep_entries:
  assumes "groupedStep this next byType prev T = Inr prev'"
    and "type_name T \<notin> set (map fst prev)"
  shows "\<exists>fs. prev' = prev @ [(type_name T, fs)] \<and> length fs \<le> 1 \<and> [] \<notin> set fs"
  using assms
  by (auto simp: groupedStep_def Let_def appendToTypeMap_fresh_None appendToTypeMap_fresh_Some
      split: option.splits if_splits sum.splits)

lemma groupedReduce_entries:
  "groupedReduce this next byType prev pts = Inr g \<Longrightarrow>
   distinct (map type_name pts) \<Longrightarrow> set (map type_name pts) \<inter> set (map fst prev) = {} \<Longrightarrow>
   \<forall>e \<in> set prev. length (snd e) \<le> 1 \<and> [] \<notin> set (snd e) \<Longrightarrow>
   \<forall>e \<in> set g. length (snd e) \<le> 1 \<and> [] \<notin> set (snd e)"
proof (induction pts arbitrary: prev)
  case Nil
  then show ?case by simp
next
  case (Cons T pts)
  from Cons.prems(1) obtain prev' where s: "groupedStep this next byType prev T = Inr prev'"
    "groupedReduce this next byType prev' pts = Inr g"
    by (auto split: sum.splits)
  have fresh: "type_name T \<notin> set (map fst prev)" using Cons.prems(3) by auto
  from groupedStep_entries[OF s(1) fresh] obtain fs where
    p: "prev' = prev @ [(type_name T, fs)]" "length fs \<le> 1" "[] \<notin> set fs" by blast
  have d: "distinct (map type_name pts)" using Cons.prems(2) by simp
  have i: "set (map type_name pts) \<inter> set (map fst prev') = {}"
    using Cons.prems(2,3) p(1) by auto
  have a: "\<forall>e \<in> set prev'. length (snd e) \<le> 1 \<and> [] \<notin> set (snd e)"
    using Cons.prems(4) p by auto
  show ?case by (rule Cons.IH[OF s(2) d i a])
qed

lemma grouped_one_fragment_per_type:
  assumes "buildGroupedSelections this next parent selectionSet = Inr grouped"
    and "distinct (map type_name (getPossibleTypes (sso_schema this) parent))"
  shows "\<forall>e \<in> set grouped. length (snd e) \<le> 1 \<and> [] \<notin> set (snd e)"
proof (cases "\<exists>selections. selectionSet = Some selections \<and> selections \<noteq> []")
  case True
  then obtain byType where
    "groupedReduce this next byType [] (getPossibleTypes (sso_schema this) parent) = Inr grouped"
    using assms(1) by (auto simp: buildGroupedSelections_def split: sum.splits)
  from groupedReduce_entries[OF this assms(2)] show ?thesis by simp
next
  case False
  then have "grouped = []" using assms(1)
    by (auto simp: buildGroupedSelections_def split: option.splits if_splits)
  then show ?thesis by simp
qed

lemma relevantOf_at_most_one:
  "length fs \<le> 1 \<Longrightarrow>
   filter (\<lambda>s. s \<noteq> []) (case relevantOf fs of None \<Rightarrow> [] | Some r \<Rightarrow> [r]) = filter (\<lambda>s. s \<noteq> []) fs"
  by (cases fs) (auto simp: relevantOf_def)

lemma branches_at_most_one:
  "\<forall>e \<in> set grouped. length (snd e) \<le> 1 \<Longrightarrow>
   filter (\<lambda>s. s \<noteq> []) (List.map_filter (\<lambda>(typeName, fragments). relevantOf fragments) grouped)
     = contributing grouped"
proof (induction grouped)
  case Nil
  then show ?case by (simp add: contributing_def List.map_filter_simps)
next
  case (Cons e grouped)
  obtain n fs where e: "e = (n, fs)" by (cases e)
  have l: "length fs \<le> 1" using Cons.prems e by simp
  have "filter (\<lambda>s. s \<noteq> []) (List.map_filter (\<lambda>(typeName, fragments). relevantOf fragments) (e # grouped))
      = filter (\<lambda>s. s \<noteq> []) (case relevantOf fs of None \<Rightarrow> [] | Some r \<Rightarrow> [r])
        @ filter (\<lambda>s. s \<noteq> []) (List.map_filter (\<lambda>(typeName, fragments). relevantOf fragments) grouped)"
    by (simp add: e List.map_filter_simps split: option.splits)
  also have "\<dots> = filter (\<lambda>s. s \<noteq> []) fs @ contributing grouped"
    using Cons.IH Cons.prems relevantOf_at_most_one[OF l] by simp
  finally show ?case by (simp add: contributing_def e)
qed

text \<open>
  Claim C4. The composition at the end of \<^verbatim>\<open>transformSelectionSet\<close>, for every grouped
  collection with at most one fragment for a type: the result is the non-null fragments of
  the types joined with \<^verbatim>\<open> | \<close>, one branch for every contributing type, in the order of the
  entries of the collection, which is the order of the possible types; it is the empty
  string when no type contributes, and the fragment itself, with nothing around it, when
  exactly one type contributes.
\<close>

theorem union_of_contributing_types:
  assumes "\<forall>e \<in> set grouped. length (snd e) \<le> 1"
  shows "composeGrouped grouped = js_join '' | '' (contributing grouped)
       \<and> (contributing grouped = [] \<longrightarrow> composeGrouped grouped = [])
       \<and> (\<forall>x. contributing grouped = [x] \<longrightarrow> composeGrouped grouped = x)
       \<and> (\<forall>x y r. contributing grouped = x # y # r \<longrightarrow>
             composeGrouped grouped = x @ '' | '' @ js_join '' | '' (y # r))"
proof -
  have "composeGrouped grouped = js_join '' | '' (contributing grouped)"
    using branches_at_most_one[OF assms] by (simp add: composeGrouped_def)
  then show ?thesis by simp
qed

theorem union_of_contributing_types_witness:
  "composeGrouped [(''Dog'', [''Pick<Dog, 'bark' | 'id'>'']), (''Cat'', [''Pick<Cat, 'meow' | 'id'>''])]
     = ''Pick<Dog, 'bark' | 'id'> | Pick<Cat, 'meow' | 'id'>''
   \<and> composeGrouped [(''Dog'', [''Pick<Dog, 'bark'>'']), (''Cat'', [])] = ''Pick<Dog, 'bark'>''
   \<and> composeGrouped [(''Dog'', []), (''Cat'', [''Pick<Cat, 'meow'>''])] = ''Pick<Cat, 'meow'>''
   \<and> composeGrouped [(''Dog'', []), (''Cat'', [])] = []"
proof -
  have h: "\<forall>e \<in> set [(''Dog'', [''Pick<Dog, 'bark' | 'id'>'']), (''Cat'', [''Pick<Cat, 'meow' | 'id'>''])].
             length (snd e) \<le> 1"
    "\<forall>e \<in> set [(''Dog'', [''Pick<Dog, 'bark'>'']), (''Cat'', [])]. length (snd e) \<le> 1"
    "\<forall>e \<in> set [(''Dog'', []), (''Cat'', [''Pick<Cat, 'meow'>''])]. length (snd e) \<le> 1"
    "\<forall>e \<in> set [(''Dog'', []), (''Cat'', [] :: string list)]. length (snd e) \<le> 1"
    by simp_all
  show ?thesis
    using union_of_contributing_types[OF h(1)] union_of_contributing_types[OF h(2)]
      union_of_contributing_types[OF h(3)] union_of_contributing_types[OF h(4)]
    by (simp add: contributing_def)
qed


subsection \<open>The object-parent branch for any type predicate\<close>

text \<open>
  On an object parent, a condition naming an interface is settled by the parent's own type
  predicate alone: without one the branch raises, with one the fields go to the parent's own
  entry exactly when the predicate accepts the interface.
\<close>

lemma object_parent_interface_condition:
  assumes "isObjectType parent" "getType (sso_schema this) n = Some iface" "isInterfaceType iface"
    "buildFragmentSpreadsUsage this (filter isFragmentSpread sels) = Inr u"
  shows "collectInlineFragments this parent [InlineFragmentNode (Some n) sels] types =
     (case isTypeOf parent of
        None \<Rightarrow> Inl RuntimeTypeError
      | Some p \<Rightarrow>
          if p (type_name iface)
          then collectInlineFragments this iface (filter isInlineFragment sels)
                 (attach types (type_name parent) (filter isField sels) u)
          else Inr types)"
proof -
  have "\<not> isObjectType iface" using assms(3) by (cases iface) auto
  then show ?thesis
    using assms by (auto simp: separateSelectionSet_def split: option.splits sum.splits)
qed


subsection \<open>The response keys of merged selection sets\<close>

text \<open>
  Merging keeps the fields of the first selection set in place and appends the fields of the
  second whose response key is new, each once: no response key is lost and none is doubled
  by the merge.
\<close>

lemma mergeSelection_keys:
  "fieldKeys (mergeSelection ys x) =
     fieldKeys ys @ (if isField x \<and> getFieldNodeNameValue x \<notin> set (fieldKeys ys)
                     then [getFieldNodeNameValue x] else [])"
proof (induction ys x rule: mergeSelection.induct)
  case (1 x)
  then show ?case by (cases x) (auto simp: fieldKeys_def)
next
  case (2 y ys x)
  show ?case
  proof (cases y)
    case yf: (FieldNode a1 n1 s1)
    show ?thesis
    proof (cases x)
      case xf: (FieldNode a2 n2 s2)
      show ?thesis
      proof (cases "getFieldNodeNameValue y = getFieldNodeNameValue x")
        case True
        then show ?thesis using yf xf by (auto simp: fieldKeys_def)
      next
        case False
        then show ?thesis using yf xf 2(2)[OF refl yf xf False]
          by (auto simp: fieldKeys_def)
      qed
    next
      case (InlineFragmentNode c s)
      then show ?thesis using yf 2 by (auto simp: fieldKeys_def)
    next
      case (FragmentSpreadNode s)
      then show ?thesis using yf 2 by (auto simp: fieldKeys_def)
    qed
  next
    case (InlineFragmentNode c s)
    then show ?thesis using 2 by (cases x) (auto simp: fieldKeys_def)
  next
    case (FragmentSpreadNode s)
    then show ?thesis using 2 by (cases x) (auto simp: fieldKeys_def)
  qed
qed

lemma mergeSelectionSets_keys:
  "fieldKeys (mergeSelectionSets a b) = fieldKeys a @ firsts (fieldKeys a) (fieldKeys b)"
  unfolding mergeSelectionSets_def
proof (induction b arbitrary: a)
  case Nil
  then show ?case by (simp add: fieldKeys_def)
next
  case (Cons x b)
  have fk: "fieldKeys (x # b) = (if isField x then [getFieldNodeNameValue x] else []) @ fieldKeys b"
    by (simp add: fieldKeys_def)
  show ?case
  proof (cases "isField x \<and> getFieldNodeNameValue x \<notin> set (fieldKeys a)")
    case True
    then show ?thesis using Cons.IH[of "mergeSelection a x"]
      by (simp add: mergeSelection_keys fk)
  next
    case False
    then have k: "fieldKeys (mergeSelection a x) = fieldKeys a" by (simp add: mergeSelection_keys)
    show ?thesis
    proof (cases "isField x")
      case True
      with False have m: "getFieldNodeNameValue x \<in> set (fieldKeys a)" by simp
      then have "firsts (fieldKeys a @ [getFieldNodeNameValue x]) (fieldKeys b)
               = firsts (fieldKeys a) (fieldKeys b)"
        by (intro firsts_cong_set) auto
      then show ?thesis using Cons.IH[of "mergeSelection a x"] k True m by (simp add: fk)
    next
      case False
      then show ?thesis using Cons.IH[of "mergeSelection a x"] k by (simp add: fk)
    qed
  qed
qed


subsection \<open>Merging does not deepen a selection set\<close>

lemma listMax_le_iff: "listMax xs \<le> d \<longleftrightarrow> (\<forall>x \<in> set xs. x \<le> d)"
  by (induction xs) auto

lemma selDepth_le_iff: "selDepth ss \<le> d \<longleftrightarrow> (\<forall>n \<in> set ss. depth n \<le> d)"
  by (auto simp: selDepth_def listMax_le_iff)

lemma mergeSelection_depth:
  "(\<forall>n \<in> set ys. depth n \<le> d) \<Longrightarrow> depth x \<le> d \<Longrightarrow>
   (\<forall>n \<in> set (mergeSelection ys x). depth n \<le> d)"
proof (induction ys x arbitrary: d rule: mergeSelection.induct)
  case (1 x)
  then show ?case by simp
next
  case (2 y ys x)
  note IH = "2.IH" and prems = "2.prems"
  have ys: "\<forall>n \<in> set ys. depth n \<le> d" and y: "depth y \<le> d" using prems(1) by auto
  show ?case
  proof (cases y)
    case yf: (FieldNode a1 n1 s1)
    show ?thesis
    proof (cases x)
      case xf: (FieldNode a2 n2 s2)
      show ?thesis
      proof (cases "getFieldNodeNameValue y = getFieldNodeNameValue x")
        case True
        have merged: "depth (FieldNode a1 n1
              (case (s1, s2) of
                 (Some c1, Some c2) \<Rightarrow> Some (foldl mergeSelection c1 c2)
               | (Some c1, None) \<Rightarrow> Some c1
               | (None, c) \<Rightarrow> c)) \<le> d"
        proof (cases s1)
          case None
          have "depth (FieldNode a1 n1 s2) = depth (FieldNode a2 n2 s2)" by (cases s2) auto
          then show ?thesis using None prems(2) xf by simp
        next
          case s1: (Some c1)
          show ?thesis
          proof (cases s2)
            case None
            then show ?thesis using s1 y yf by simp
          next
            case s2: (Some c2)
            obtain d' where d: "d = Suc d'" using y yf s1 by (cases d) auto
            have b1: "\<forall>n \<in> set c1. depth n \<le> d'"
              using y yf s1 d by (simp add: listMax_le_iff)
            have b2: "\<forall>n \<in> set c2. depth n \<le> d'"
              using prems(2) xf s2 d by (simp add: listMax_le_iff)
            have step: "\<forall>n \<in> set (mergeSelection acc b). depth n \<le> d'"
              if "b \<in> set c2" "\<forall>n \<in> set acc. depth n \<le> d'" for acc b
              using IH(1)[OF refl yf xf True refl s1 s2 that(1) that(2)] b2 that(1) by simp
            have "\<forall>n \<in> set (foldl mergeSelection acc c2'). depth n \<le> d'"
              if "set c2' \<subseteq> set c2" "\<forall>n \<in> set acc. depth n \<le> d'" for acc c2'
              using that
            proof (induction c2' arbitrary: acc)
              case Nil
              then show ?case by simp
            next
              case (Cons b c2')
              have "b \<in> set c2" using Cons.prems(1) by simp
              from step[OF this Cons.prems(2)] Cons.IH[of "mergeSelection acc b"] Cons.prems(1)
              show ?case by simp
            qed
            from this[of c2 c1] b1 have "\<forall>n \<in> set (foldl mergeSelection c1 c2). depth n \<le> d'"
              by simp
            then show ?thesis
              using s1 s2 d by (simp add: listMax_le_iff)
          qed
        qed
        have "mergeSelection (y # ys) x = FieldNode a1 n1
              (case (s1, s2) of
                 (Some c1, Some c2) \<Rightarrow> Some (foldl mergeSelection c1 c2)
               | (Some c1, None) \<Rightarrow> Some c1
               | (None, c) \<Rightarrow> c) # ys"
          using True yf xf by simp
        then show ?thesis using merged ys by simp
      next
        case False
        have "mergeSelection (y # ys) x = y # mergeSelection ys x" using False yf xf by simp
        then show ?thesis using IH(2)[OF refl yf xf False ys prems(2)] y by simp
      qed
    next
      case xi: (InlineFragmentNode c s)
      have ne: "y \<noteq> x" using yf xi by simp
      have "mergeSelection (y # ys) x = y # mergeSelection ys x" using yf xi by simp
      then show ?thesis using IH(3)[OF refl yf xi ne ys prems(2)] y by simp
    next
      case xs: (FragmentSpreadNode s)
      have ne: "y \<noteq> x" using yf xs by simp
      have "mergeSelection (y # ys) x = y # mergeSelection ys x" using yf xs by simp
      then show ?thesis using IH(4)[OF refl yf xs ne ys prems(2)] y by simp
    qed
  next
    case yi: (InlineFragmentNode c s)
    show ?thesis
    proof (cases "y = x")
      case True
      then have xi: "x = InlineFragmentNode c s" using yi by simp
      have "mergeSelection (y # ys) x = y # ys" unfolding xi yi by simp
      then show ?thesis using ys y by simp
    next
      case False
      then have "mergeSelection (y # ys) x = y # mergeSelection ys x" using yi by simp
      then show ?thesis using IH(5)[OF refl yi False ys prems(2)] y by simp
    qed
  next
    case yp: (FragmentSpreadNode s)
    show ?thesis
    proof (cases "y = x")
      case True
      then have xp: "x = FragmentSpreadNode s" using yp by simp
      have "mergeSelection (y # ys) x = y # ys" unfolding xp yp by simp
      then show ?thesis using ys y by simp
    next
      case False
      then have "mergeSelection (y # ys) x = y # mergeSelection ys x" using yp by simp
      then show ?thesis using IH(6)[OF refl yp False ys prems(2)] y by simp
    qed
  qed
qed

lemma mergeSelectionSets_depth:
  "selDepth a \<le> d \<Longrightarrow> selDepth b \<le> d \<Longrightarrow> selDepth (mergeSelectionSets a b) \<le> d"
  unfolding mergeSelectionSets_def selDepth_le_iff
proof (induction b arbitrary: a)
  case Nil
  then show ?case by simp
next
  case (Cons x b)
  from mergeSelection_depth[of a d x] Cons.prems
  have "\<forall>n \<in> set (mergeSelection a x). depth n \<le> d" by simp
  from Cons.IH[OF this] Cons.prems(2) show ?case by simp
qed


subsection \<open>Flattening never runs out of fuel and does not deepen the document\<close>

lemma spreadsUsageLoop_fuel: "spreadsUsageLoop this spreads m \<noteq> Inl OutOfFuel"
  by (induction this spreads m rule: spreadsUsageLoop.induct)
     (auto split: option.splits simp: Let_def)

lemma buildFragmentSpreadsUsage_fuel: "buildFragmentSpreadsUsage this spreads \<noteq> Inl OutOfFuel"
  by (simp add: buildFragmentSpreadsUsage_def spreadsUsageLoop_fuel)

lemma appendToTypeMap_bound:
  "typesBound d types \<Longrightarrow> (\<forall>ns. nodes = Some ns \<longrightarrow> (\<forall>it \<in> set ns. itemDepth it \<le> d)) \<Longrightarrow>
   typesBound d (appendToTypeMap types k nodes)"
  by (fastforce simp: typesBound_def appendToTypeMap_def Let_def split: option.splits if_splits)

lemma attach_bound:
  "typesBound d types \<Longrightarrow> \<forall>n \<in> set flds. depth n \<le> d \<Longrightarrow>
   typesBound d (attach types k flds u)"
  unfolding attach_def
  by (intro appendToTypeMap_bound) auto

lemma inline_members_bound:
  "depth (InlineFragmentNode c sels) \<le> d \<Longrightarrow> n \<in> set (filter P sels) \<Longrightarrow> depth n \<le> d"
  by (auto simp: listMax_le_iff)

lemma collect_bound:
  "typesBound d types \<Longrightarrow> (\<forall>n \<in> set nodes. depth n \<le> d) \<Longrightarrow>
     collectOk d (collectInlineFragments this parent nodes types)"
  "typesBound d types \<Longrightarrow> depth node \<le> d \<Longrightarrow>
     collectOk d (collectNode this parent node types)"
  "typesBound d types \<Longrightarrow> (\<forall>n \<in> set inlines. depth n \<le> d) \<Longrightarrow>
     (\<forall>n \<in> set flds. depth n \<le> d) \<Longrightarrow>
     collectOk d (collectPossibleTypes this st inlines flds u pts types)"
proof (induction this parent nodes types and this parent node types
         and this st inlines flds u pts types
       rule: collectInlineFragments_collectNode_collectPossibleTypes.induct)
  case (1 this parentType types)
  then show ?case by (simp add: collectOk_def)
next
  case (2 this parentType node rest types)
  show ?case
  proof (cases "collectNode this parentType node types")
    case (Inl e)
    then show ?thesis using "2.IH"(1)[OF "2.prems"(1)] "2.prems"(2) by (simp add: collectOk_def)
  next
    case (Inr t)
    then have "typesBound d t" using "2.IH"(1)[OF "2.prems"(1)] "2.prems"(2) by (simp add: collectOk_def)
    from "2.IH"(2)[OF Inr this] "2.prems"(2) show ?thesis using Inr by simp
  qed
next
  case (3 this parentType typeCondition selections types)
  note IH = "3.IH" and prems = "3.prems"
  show ?case
  proof (cases "isObjectType parentType \<or> isInterfaceType parentType \<or> isUnionType parentType")
    case False
    then show ?thesis using prems(1) by (simp add: collectOk_def)
  next
    case True
    then have nn: "\<not> \<not> (isObjectType parentType \<or> isInterfaceType parentType \<or> isUnionType parentType)"
      by simp
    let ?flds = "filter isField selections"
    let ?inl = "filter isInlineFragment selections"
    let ?spr = "filter isFragmentSpread selections"
    have sep: "(?flds, ?inl, ?spr) = separateSelectionSet selections"
      by (simp add: separateSelectionSet_def)
    have bf: "\<forall>n \<in> set ?flds. depth n \<le> d" and bi: "\<forall>n \<in> set ?inl. depth n \<le> d"
      using prems(2) inline_members_bound by blast+
    show ?thesis
    proof (cases "buildFragmentSpreadsUsage this ?spr")
      case (Inl e)
      then show ?thesis using True buildFragmentSpreadsUsage_fuel[of this ?spr]
        by (simp add: collectOk_def separateSelectionSet_def)
    next
      case (Inr b)
      note B = Inr
      show ?thesis
      proof (cases "case typeCondition of None \<Rightarrow> Some parentType
                     | Some x \<Rightarrow> getType (sso_schema this) x")
        case None
        then show ?thesis using True B prems(1)
          by (simp add: collectOk_def separateSelectionSet_def)
      next
        case (Some T)
        note ih = IH[OF nn refl refl sep refl B Some]
        have ta: "typesBound d (attach types k ?flds b)" for k
          using prems(1) bf by (rule attach_bound)
        have res: "collectNode this parentType (InlineFragmentNode typeCondition selections) types =
            (if isObjectType parentType then
               (if isObjectType T then
                  collectInlineFragments this T ?inl (attach types (type_name T) ?flds b)
                else if isInterfaceType T then
                  (case isTypeOf parentType of
                     None \<Rightarrow> Inl RuntimeTypeError
                   | Some p \<Rightarrow>
                       if p (type_name T) then
                         collectInlineFragments this T ?inl (attach types (type_name parentType) ?flds b)
                       else Inr types)
                else Inr types)
             else if isInterfaceType parentType then
               (if isObjectType T \<and>
                   type_name T \<in> set (map type_name (getPossibleTypes (sso_schema this) parentType)) then
                  collectInlineFragments this T ?inl (attach types (type_name T) ?flds b)
                else if isInterfaceType T \<and> type_name T = type_name parentType then
                  collectPossibleTypes this T ?inl ?flds b
                    (getPossibleTypes (sso_schema this) parentType) types
                else Inr types)
             else
               (if isObjectType T \<and>
                   type_name T \<in> set (map type_name (getTypes (sso_schema this) parentType)) then
                  collectInlineFragments this T ?inl (attach types (type_name T) ?flds b)
                else if isInterfaceType T then
                  collectPossibleTypes this T ?inl ?flds b
                    (filter (\<lambda>possibleType. type_name possibleType \<in>
                               set (map type_name (getPossibleTypes (sso_schema this) T)))
                       (getTypes (sso_schema this) parentType))
                    types
                else Inr types))"
          using True B Some by (simp add: separateSelectionSet_def Let_def)
        have base: "collectOk d (Inr types)" "collectOk d (Inl RuntimeTypeError)"
          using prems(1) by (simp_all add: collectOk_def)
        show ?thesis
        proof (cases "isObjectType parentType")
          case po: True
          show ?thesis
          proof (cases "isObjectType T")
            case True
            then show ?thesis using res po ih(1)[OF po True ta bi] by (auto simp del: collectNode.simps)
          next
            case nto: False
            show ?thesis
            proof (cases "isInterfaceType T")
              case ti: True
              show ?thesis
              proof (cases "isTypeOf parentType")
                case None
                then show ?thesis using res po nto ti base by (auto simp del: collectNode.simps)
              next
                case (Some p)
                show ?thesis
                proof (cases "p (type_name T)")
                  case True
                  then show ?thesis using res po nto ti Some ih(2)[OF po nto ti Some True ta bi]
                    by (auto simp del: collectNode.simps)
                next
                  case False
                  then show ?thesis using res po nto ti Some base by (auto simp del: collectNode.simps)
                qed
              qed
            next
              case False
              then show ?thesis using res po nto base by (auto simp del: collectNode.simps)
            qed
          qed
        next
          case npo: False
          show ?thesis
          proof (cases "isInterfaceType parentType")
            case pi: True
            let ?pts = "getPossibleTypes (sso_schema this) parentType"
            show ?thesis
            proof (cases "isObjectType T \<and> type_name T \<in> set (map type_name ?pts)")
              case True
              then show ?thesis using res npo pi ih(3)[OF npo pi refl True ta bi] by (auto simp del: collectNode.simps)
            next
              case nA: False
              show ?thesis
              proof (cases "isInterfaceType T \<and> type_name T = type_name parentType")
                case True
                then show ?thesis
                  using res npo pi nA ih(4)[OF npo pi refl nA True prems(1) bi bf] by (auto simp del: collectNode.simps)
              next
                case False
                then show ?thesis using res npo pi nA base by (auto simp del: collectNode.simps)
              qed
            qed
          next
            case npi: False
            let ?pts = "getTypes (sso_schema this) parentType"
            show ?thesis
            proof (cases "isObjectType T \<and> type_name T \<in> set (map type_name ?pts)")
              case True
              then show ?thesis using res npo npi ih(5)[OF npo npi refl True ta bi] by (auto simp del: collectNode.simps)
            next
              case nA: False
              show ?thesis
              proof (cases "isInterfaceType T")
                case True
                then show ?thesis
                  using res npo npi nA ih(6)[OF npo npi refl nA True refl prems(1) bi bf] by (auto simp del: collectNode.simps)
              next
                case False
                then show ?thesis using res npo npi nA base by (auto simp del: collectNode.simps)
              qed
            qed
          qed
        qed
      qed
    qed
  qed
next
  case (4 this parentType a n s types)
  then show ?case by (simp add: collectOk_def)
next
  case (5 this parentType n types)
  then show ?case by (simp add: collectOk_def)
next
  case (6 this schemaType inlines flds spreadsUsage types)
  then show ?case by (simp add: collectOk_def)
next
  case (7 this schemaType inlines flds spreadsUsage possibleType rest types)
  let ?t = "attach types (type_name possibleType) flds spreadsUsage"
  have tb: "typesBound d ?t" using "7.prems"(1,3) by (rule attach_bound)
  show ?case
  proof (cases "collectInlineFragments this schemaType inlines ?t")
    case (Inl e)
    then show ?thesis using "7.IH"(1)[OF tb "7.prems"(2)] by (simp add: collectOk_def)
  next
    case (Inr t)
    then have "typesBound d t" using "7.IH"(1)[OF tb "7.prems"(2)] by (simp add: collectOk_def)
    from "7.IH"(2)[OF Inr this "7.prems"(2,3)] show ?thesis using Inr by simp
  qed
qed

lemma foldl_appendToTypeMap_bound:
  "typesBound d types \<Longrightarrow>
   typesBound d (foldl (\<lambda>types typeName.
        appendToTypeMap types typeName (map_option (map Usage) (map_of u typeName))) types ks)"
proof (induction ks arbitrary: types)
  case Nil
  then show ?case by simp
next
  case (Cons k ks)
  have "typesBound d (appendToTypeMap types k (map_option (map Usage) (map_of u k)))"
    using Cons.prems by (intro appendToTypeMap_bound) auto
  from Cons.IH[OF this] show ?case by simp
qed

lemma flatten_bound: "collectOk (selDepth selections) (flattenSelectionSet this parent selections)"
proof -
  let ?d = "selDepth selections"
  let ?nodes = "filter isInlineFragment selections @
            (if length (filter isField selections) > 0
             then [createInlineFragmentForFieldNodes parent (filter isField selections)] else [])"
  have m: "\<forall>n \<in> set selections. depth n \<le> ?d" using selDepth_le_iff by blast
  have "depth (createInlineFragmentForFieldNodes parent (filter isField selections)) \<le> ?d"
    using m by (simp add: createInlineFragmentForFieldNodes_def listMax_le_iff)
  then have nb: "\<forall>n \<in> set ?nodes. depth n \<le> ?d" using m by auto
  have e: "typesBound ?d []" by (simp add: typesBound_def)
  from collect_bound(1)[OF e nb, of this parent]
  have c: "collectOk ?d (collectInlineFragments this parent ?nodes [])" .
  show ?thesis
  proof (cases "collectInlineFragments this parent ?nodes []")
    case (Inl e)
    then show ?thesis using c by (simp add: flattenSelectionSet_def Let_def collectOk_def)
  next
    case (Inr t)
    then have tb: "typesBound ?d t" using c by (simp add: collectOk_def)
    show ?thesis
    proof (cases "buildFragmentSpreadsUsage this (filter isFragmentSpread selections)")
      case (Inl e)
      then show ?thesis using Inr buildFragmentSpreadsUsage_fuel[of this "filter isFragmentSpread selections"]
        by (simp add: flattenSelectionSet_def Let_def collectOk_def)
    next
      case u: (Inr u)
      show ?thesis using Inr u foldl_appendToTypeMap_bound[OF tb, of u "map fst u"]
        by (simp add: flattenSelectionSet_def Let_def collectOk_def)
    qed
  qed
qed


subsection \<open>Link fields are strictly shallower than the selection set they come from\<close>

lemma classifyNode_fuel: "classifyNode parent st x \<noteq> Inl OutOfFuel"
  by (auto simp: classifyNode_def Let_def
           split: item.splits selection_node.splits option.splits prod.splits)

lemma classify_fuel: "classify parent st items \<noteq> Inl OutOfFuel"
  by (induction items arbitrary: st) (auto simp: classifyNode_fuel split: sum.splits)

lemma linksOk_mapSet:
  assumes "linksOk d links" "selDepth ss < d"
  shows "linksOk d (mapSet links k (ty, FieldNode al n (Some ss)))"
  unfolding linksOk_def
proof
  fix e assume "e \<in> set (mapSet links k (ty, FieldNode al n (Some ss)))"
  then have "e = (k, ty, FieldNode al n (Some ss)) \<or> e \<in> set links"
    using set_mapSet[of links k "(ty, FieldNode al n (Some ss))"] by auto
  then show "\<exists>al n ss. snd (snd e) = FieldNode al n (Some ss) \<and> selDepth ss < d"
  proof
    assume "e = (k, ty, FieldNode al n (Some ss))"
    then show ?thesis using \<open>selDepth ss < d\<close> by simp
  next
    assume "e \<in> set links"
    then show ?thesis using \<open>linksOk d links\<close> unfolding linksOk_def by blast
  qed
qed

lemma classifyNode_linksOk:
  assumes "classifyNode parent st x = Inr st'" "linksOk d (linkFieldSelectionSets st)"
    "itemDepth x \<le> d"
  shows "linksOk d (linkFieldSelectionSets st')"
proof (cases x)
  case (Usage u)
  then show ?thesis using assms by (auto simp: classifyNode_def)
next
  case (Node n)
  show ?thesis
  proof (cases n)
    case (FieldNode al name sel)
    show ?thesis
    proof (cases sel)
      case None
      then show ?thesis using assms Node FieldNode
        by (auto simp: classifyNode_def split: option.splits if_splits)
    next
      case (Some ss)
      note S = Some
      have sd: "selDepth ss < d" using assms(3) Node FieldNode S by (simp add: selDepth_def)
      from assms(1) Node FieldNode S obtain ty where ty: "selectedFieldType parent name = Some ty"
        by (auto simp: classifyNode_def split: option.splits)
      let ?k = "getFieldNodeNameValue (FieldNode al name (Some ss))"
      show ?thesis
      proof (cases "map_of (linkFieldSelectionSets st) ?k")
        case None
        then have "linkFieldSelectionSets st' =
            mapSet (linkFieldSelectionSets st) ?k (ty, FieldNode al name (Some ss))"
          using assms(1) Node FieldNode S ty by (auto simp: classifyNode_def Let_def)
        then show ?thesis using linksOk_mapSet[OF assms(2) sd] by simp
      next
        case (Some e)
        note E = Some
        obtain ty1 f where e: "e = (ty1, f)" by (cases e)
        from map_of_SomeD[OF E] assms(2) e
        obtain al1 n1 ss1 where f: "f = FieldNode al1 n1 (Some ss1)" and s1: "selDepth ss1 < d"
          by (fastforce simp: linksOk_def)
        obtain d' where d: "d = Suc d'" using sd by (cases d) auto
        have "selDepth (mergeSelectionSets ss1 ss) \<le> d'"
          using s1 sd d by (intro mergeSelectionSets_depth) auto
        then have md: "selDepth (mergeSelectionSets ss1 ss) < d" using d by simp
        have "linkFieldSelectionSets st' =
            mapSet (linkFieldSelectionSets st) ?k
              (ty1, FieldNode al1 n1 (Some (mergeSelectionSets ss1 ss)))"
          using assms(1) Node FieldNode S ty E e f by (auto simp: classifyNode_def Let_def)
        then show ?thesis using linksOk_mapSet[OF assms(2) md] by simp
      qed
    qed
  next
    case (InlineFragmentNode c s)
    then show ?thesis using assms Node by (auto simp: classifyNode_def)
  next
    case (FragmentSpreadNode s)
    then show ?thesis using assms Node by (auto simp: classifyNode_def)
  qed
qed

lemma classify_linksOk:
  "classify parent st items = Inr st' \<Longrightarrow> linksOk d (linkFieldSelectionSets st) \<Longrightarrow>
   \<forall>it \<in> set items. itemDepth it \<le> d \<Longrightarrow> linksOk d (linkFieldSelectionSets st')"
proof (induction items arbitrary: st)
  case Nil
  then show ?case by simp
next
  case (Cons x items)
  from Cons.prems(1) obtain st1 where s: "classifyNode parent st x = Inr st1"
    "classify parent st1 items = Inr st'"
    by (auto split: sum.splits)
  have "linksOk d (linkFieldSelectionSets st1)"
    using classifyNode_linksOk[OF s(1) Cons.prems(2)] Cons.prems(3) by simp
  from Cons.IH[OF s(2) this] Cons.prems(3) show ?case by simp
qed


subsection \<open>Enough fuel\<close>

lemma buildLinkFields_fuel:
  "linksOk d links \<Longrightarrow> \<forall>t ss. selDepth ss < d \<longrightarrow> next t (Some ss) \<noteq> Inl OutOfFuel \<Longrightarrow>
   buildLinkFields this next links \<noteq> Inl OutOfFuel"
proof (induction links)
  case Nil
  then show ?case by simp
next
  case (Cons e links)
  obtain k ty f where e: "e = (k, ty, f)" by (cases e)
  from Cons.prems(1) e obtain al n ss where f: "f = FieldNode al n (Some ss)" "selDepth ss < d"
    by (auto simp: linksOk_def)
  have l: "linksOk d links" using Cons.prems(1) by (simp add: linksOk_def)
  have n: "next t (Some ss) \<noteq> Inl OutOfFuel" for t using Cons.prems(2) f(2) by blast
  show ?case
    using Cons.IH[OF l Cons.prems(2)] n e f(1)
    by (auto split: option.splits sum.splits)
qed

lemma buildSelectionSetString_fuel:
  assumes "\<forall>it \<in> set items. itemDepth it \<le> d"
    and "\<forall>t ss. selDepth ss < d \<longrightarrow> next t (Some ss) \<noteq> Inl OutOfFuel"
  shows "buildSelectionSetString this next parent items \<noteq> Inl OutOfFuel"
proof (cases "classify parent emptyClassification items")
  case (Inl e)
  then show ?thesis using classify_fuel[of parent emptyClassification items]
    by (simp add: buildSelectionSetString_def)
next
  case (Inr st)
  have "linksOk d (linkFieldSelectionSets emptyClassification)"
    by (simp add: linksOk_def emptyClassification_def)
  from classify_linksOk[OF Inr this assms(1)]
  have "buildLinkFields this next (linkFieldSelectionSets st) \<noteq> Inl OutOfFuel"
    using assms(2) by (rule buildLinkFields_fuel)
  then show ?thesis using Inr
    by (auto simp: buildSelectionSetString_def Let_def split: sum.splits)
qed

lemma typesBound_lookup:
  assumes "typesBound d byType"
  shows "\<forall>it \<in> set (case map_of byType k of None \<Rightarrow> [] | Some ns \<Rightarrow> ns). itemDepth it \<le> d"
proof (cases "map_of byType k")
  case None
  then show ?thesis by simp
next
  case (Some ns)
  from map_of_SomeD[OF Some] assms show ?thesis using Some
    by (fastforce simp: typesBound_def)
qed

lemma groupedStep_fuel:
  assumes "typesBound d byType"
    and "\<forall>t ss. selDepth ss < d \<longrightarrow> next t (Some ss) \<noteq> Inl OutOfFuel"
  shows "groupedStep this next byType prev T \<noteq> Inl OutOfFuel"
proof (cases "getType (sso_schema this) (type_name T)")
  case None
  then show ?thesis by (simp add: groupedStep_def)
next
  case (Some schemaType)
  have "buildSelectionSetString this next schemaType
          (case map_of byType (type_name T) of None \<Rightarrow> [] | Some ns \<Rightarrow> ns) \<noteq> Inl OutOfFuel"
    using typesBound_lookup[OF assms(1)] assms(2) by (rule buildSelectionSetString_fuel)
  then show ?thesis using Some
    by (cases "buildSelectionSetString this next schemaType
          (case map_of byType (type_name T) of None \<Rightarrow> [] | Some ns \<Rightarrow> ns)")
       (auto simp: groupedStep_def Let_def split: option.splits)
qed

lemma groupedReduce_fuel:
  assumes "typesBound d byType"
    and "\<forall>t ss. selDepth ss < d \<longrightarrow> next t (Some ss) \<noteq> Inl OutOfFuel"
  shows "groupedReduce this next byType prev pts \<noteq> Inl OutOfFuel"
proof (induction pts arbitrary: prev)
  case Nil
  then show ?case by simp
next
  case (Cons T pts)
  show ?case
  proof (cases "groupedStep this next byType prev T")
    case (Inl e)
    then show ?thesis using groupedStep_fuel[OF assms, of this prev T] by simp
  next
    case (Inr prev')
    then show ?thesis using Cons.IH[of prev'] by simp
  qed
qed

lemma typesBound_mono: "typesBound d t \<Longrightarrow> d \<le> d' \<Longrightarrow> typesBound d' t"
  by (fastforce simp: typesBound_def)

lemma transformSelectionSetWith_fuel:
  assumes "selDepth selections \<le> d"
    and "\<forall>t ss. selDepth ss < d \<longrightarrow> next t (Some ss) \<noteq> Inl OutOfFuel"
  shows "transformSelectionSetWith this next parent (Some selections) \<noteq> Inl OutOfFuel"
proof (cases "flattenSelectionSet this parent selections")
  case (Inl e)
  then show ?thesis using flatten_bound[of selections this parent]
    by (auto simp: transformSelectionSetWith_def buildGroupedSelections_def collectOk_def
             split: sum.splits)
next
  case (Inr byType)
  then have "typesBound d byType"
    using flatten_bound[of selections this parent] assms(1)
    by (auto simp: collectOk_def intro: typesBound_mono)
  from groupedReduce_fuel[OF this assms(2)] show ?thesis using Inr
    by (auto simp: transformSelectionSetWith_def buildGroupedSelections_def split: sum.splits)
qed

text \<open>
  The recursion of \<open>transformSelectionSet\<close> through the processor's link fields is bounded
  by the nesting depth of the document: with more fuel than the selection set is deep, the
  embedding never stops for lack of fuel.
\<close>

theorem fuel_suffices:
  "selDepth selections < n \<Longrightarrow>
   transformSelectionSet n this parent (Some selections) \<noteq> Inl OutOfFuel"
proof (induction n arbitrary: selections parent)
  case 0
  then show ?case by simp
next
  case (Suc n)
  have "\<forall>t ss. selDepth ss < n \<longrightarrow> transformSelectionSet n this t (Some ss) \<noteq> Inl OutOfFuel"
    using Suc.IH by blast
  from transformSelectionSetWith_fuel[OF _ this, of selections this parent] Suc.prems
  show ?case by simp
qed

end
